theory Spec2Isabelle
  imports Main "HOL-Library.AList"
begin

section \<open>Python values, exceptions and outcomes\<close>

text \<open>
  The attribute values, table keys and keyword defaults of \<^verbatim>\<open>cortex/_lib/models.py\<close>:
  \<^verbatim>\<open>None\<close>, a string, an integer, a dictionary with string keys, or an opaque object
  (a method, a class) identified by a number.
\<close>

datatype pyval =
    PyNone
  | PyStr string
  | PyInt int
  | PyDict "(string \<times> pyval) list"
  | PyObj nat

text \<open>
  A name remap of a routine (\<^verbatim>\<open>routine._names\<close>) sends a local input name to one pool
  key, to a list of pool keys or to a tuple of pool keys.
\<close>

datatype send = Key string | KeyList "string list" | KeyTuple "string list"

text \<open>
  Every \<^verbatim>\<open>raise\<close> of the module, and the exceptions Python itself raises on the paths
  that are modelled. The comment gives the Python exception class and the source line.
\<close>

datatype error =
    AlreadyRegistered string pyval  \<comment> \<open>KeyError, line 35: plugin type string and plugin name\<close>
  | ProtectedAttribute string       \<comment> \<open>AttributeError, line 42\<close>
  | AttributeNotSet string          \<comment> \<open>AttributeError, line 47\<close>
  | NoAttribute string              \<comment> \<open>AttributeError of an attribute access on a missing attribute\<close>
  | NoRunMethod                     \<comment> \<open>ValueError, line 145\<close>
  | CheckFailed                     \<comment> \<open>ValueError, lines 254 and 260\<close>
  | NotInInputs send "string list"  \<comment> \<open>KeyError, line 370: the requirement and the available keys\<close>
  | AlreadyInInputs string          \<comment> \<open>KeyError, line 406\<close>
  | NoSuchKey send                  \<comment> \<open>KeyError of a dictionary lookup with a string or tuple key\<close>
  | NoSuchPlugin pyval              \<comment> \<open>KeyError of a lookup in a registration table\<close>
  | Unhashable                      \<comment> \<open>TypeError: a list or a dictionary used as a dictionary key\<close>
  | UnexpectedKeyword string        \<comment> \<open>TypeError: a keyword argument the callee does not take\<close>
  | IndexOutOfRange                 \<comment> \<open>IndexError of a list index\<close>
  | UnboundLocal string             \<comment> \<open>UnboundLocalError: a local read before assignment\<close>
  | NoneHasNo string                \<comment> \<open>AttributeError: attribute access on \<^verbatim>\<open>None\<close>\<close>
  | NotAList string                 \<comment> \<open>AttributeError: \<^verbatim>\<open>append\<close> on a dictionary\<close>
  | PluginFailure nat               \<comment> \<open>an exception raised inside a plugin's own computation\<close>

datatype pyexc = KeyError | AttributeError | ValueError | TypeError | IndexError
  | UnboundLocalError | OtherException

fun exc_class :: "error \<Rightarrow> pyexc" where
  "exc_class (AlreadyRegistered t n) = KeyError"
| "exc_class (ProtectedAttribute k) = AttributeError"
| "exc_class (AttributeNotSet k) = AttributeError"
| "exc_class (NoAttribute k) = AttributeError"
| "exc_class NoRunMethod = ValueError"
| "exc_class CheckFailed = ValueError"
| "exc_class (NotInInputs s ks) = KeyError"
| "exc_class (AlreadyInInputs k) = KeyError"
| "exc_class (NoSuchKey k) = KeyError"
| "exc_class (NoSuchPlugin k) = KeyError"
| "exc_class Unhashable = TypeError"
| "exc_class (UnexpectedKeyword k) = TypeError"
| "exc_class IndexOutOfRange = IndexError"
| "exc_class (UnboundLocal k) = UnboundLocalError"
| "exc_class (NoneHasNo k) = AttributeError"
| "exc_class (NotAList k) = AttributeError"
| "exc_class (PluginFailure n) = OtherException"

text \<open>
  A stateful operation ends normally (\<open>Done\<close>), by an exception that reaches the caller
  (\<open>Raised\<close>) or by \<^verbatim>\<open>exit(0)\<close> (\<open>Exited\<close>); each carries the state at that moment.
\<close>

datatype 's outcome = Done 's | Raised error 's | Exited 's

fun and_then :: "'s outcome \<Rightarrow> ('s \<Rightarrow> 's outcome) \<Rightarrow> 's outcome" where
  "and_then (Done s) f = f s"
| "and_then (Raised e s) f = Raised e s"
| "and_then (Exited s) f = Exited s"

fun final_state :: "'s outcome \<Rightarrow> 's" where
  "final_state (Done s) = s"
| "final_state (Raised e s) = s"
| "final_state (Exited s) = s"

section \<open>The plugin registry\<close>

text \<open>
  A plugin as \<^verbatim>\<open>check_plugin\<close> sees it: its attribute dictionary (what \<^verbatim>\<open>hasattr\<close>,
  \<^verbatim>\<open>getattr\<close> and \<^verbatim>\<open>setattr\<close> read and write) and the two lists \<^verbatim>\<open>_protected\<close> and
  \<^verbatim>\<open>_required\<close>, which the plugin classes outside this module declare.
\<close>

record plugin =
  attrs :: "(string \<times> pyval) list"
  protected :: "string list"
  required :: "string list"

definition hasattr :: "'a plugin_scheme \<Rightarrow> string \<Rightarrow> bool" where
  "hasattr p k = (map_of (attrs p) k \<noteq> None)"

definition getattr :: "'a plugin_scheme \<Rightarrow> string \<Rightarrow> pyval option" where
  "getattr p k = map_of (attrs p) k"

definition getattr_default :: "'a plugin_scheme \<Rightarrow> string \<Rightarrow> pyval \<Rightarrow> pyval" where
  "getattr_default p k d = (case map_of (attrs p) k of None \<Rightarrow> d | Some v \<Rightarrow> v)"

definition setattr :: "'a plugin_scheme \<Rightarrow> string \<Rightarrow> pyval \<Rightarrow> 'a plugin_scheme" where
  "setattr p k v = p\<lparr>attrs := AList.update k v (attrs p)\<rparr>"

text \<open>Lines 40 to 42: the first protected attribute the plugin defines is an error.\<close>

fun check_protected :: "'a plugin_scheme \<Rightarrow> string list \<Rightarrow> error option" where
  "check_protected p [] = None"
| "check_protected p (k # ks) =
     (if hasattr p k then Some (ProtectedAttribute k) else check_protected p ks)"

text \<open>Lines 44 to 50: every required attribute must be set to something other than None.\<close>

fun check_required :: "'a plugin_scheme \<Rightarrow> string list \<Rightarrow> error + 'a plugin_scheme" where
  "check_required p [] = Inr p"
| "check_required p (k # ks) =
     (let v = getattr_default p k PyNone
      in if v = PyNone then Inl (AttributeNotSet k)
         else check_required (setattr p k v) ks)"

text \<open>
  \<^verbatim>\<open>check_plugin(plugin, plugin_type_str, D)\<close>, lines 31 to 50. Line 33 builds a
  \<^verbatim>\<open>ValueError\<close> object when the name is None and drops it: there is no \<^verbatim>\<open>raise\<close>, so
  \<open>unraised\<close> is bound and never used. The test \<^verbatim>\<open>plugin.plugin_name in D\<close> of line 34
  hashes the name: a dictionary is not hashable and the test raises \<^verbatim>\<open>TypeError\<close>. No key
  of a table is a dictionary, so a name that is a key is hashable.
\<close>

definition check_plugin ::
  "'a plugin_scheme \<Rightarrow> string \<Rightarrow> (pyval \<times> 'b) list \<Rightarrow> error + 'a plugin_scheme" where
  "check_plugin p plugin_type_str D =
     (case getattr p ''plugin_name'' of
        None \<Rightarrow> Inl (NoAttribute ''plugin_name'')
      | Some name \<Rightarrow>
          (let unraised = (if name = PyNone then Some ValueError else None)
           in if name \<in> fst ` set D
              then Inl (AlreadyRegistered plugin_type_str name)
              else (case name of
                      PyDict items \<Rightarrow> Inl Unhashable
                    | _ \<Rightarrow>
                        (case check_protected p (protected p) of
                           Some e \<Rightarrow> Inl e
                         | None \<Rightarrow> check_required p (required p)))))"

text \<open>
  A stage attached to a model composition: what kind of object it is (for
  \<^verbatim>\<open>isinstance\<close>), its declared keyword defaults and its keyword aliases.
\<close>

datatype stage_kind = RoutineStage | BuildStage | OtherObject

record stage =
  kind :: stage_kind
  plugin_kwargs :: "(string \<times> pyval) list"
  kw_alias :: "(string \<times> string) list"

text \<open>
  A model composition (\<^verbatim>\<open>ModelPluginBase\<close>) as registration and discovery see it: a plugin
  with its attached routines and builds and its canonical keyword table.
\<close>

record composition = plugin +
  comp_routines :: "(string \<times> stage) list"
  comp_builds :: "(string \<times> stage) list"
  comp_kwargs :: "(string \<times> pyval) list"

text \<open>
  Modelled from the spec: the item assignment of the handlers (\<^verbatim>\<open>Handler\<close>,
  \<^verbatim>\<open>AliasHandler\<close>, in \<^verbatim>\<open>handlers.py\<close>) is missing. The spec says that a local name
  resolves through the alias table, and that a second, conflicting default for a key that
  is already set is refused, the first value being kept.
\<close>

definition alias_resolve :: "(string \<times> string) list \<Rightarrow> string \<Rightarrow> string" where
  "alias_resolve al k = (case map_of al k of None \<Rightarrow> k | Some c \<Rightarrow> c)"

definition handler_setitem ::
  "(string \<times> pyval) list \<Rightarrow> string \<Rightarrow> pyval \<Rightarrow> pyexc + (string \<times> pyval) list" where
  "handler_setitem h k v =
     (case map_of h k of
        None \<Rightarrow> Inr (AList.update k v h)
      | Some w \<Rightarrow> if w = v then Inr h else Inl ValueError)"

text \<open>
  \<^verbatim>\<open>add_kwargs(obj)\<close>, lines 264 to 271: a \<^verbatim>\<open>ValueError\<close> of the assignment is caught
  and only logged.
\<close>

fun add_kwargs ::
  "(string \<times> string) list \<Rightarrow> (string \<times> pyval) list \<Rightarrow> (string \<times> pyval) list
     \<Rightarrow> (string \<times> pyval) list" where
  "add_kwargs al [] h = h"
| "add_kwargs al ((k, v) # kvs) h =
     (case handler_setitem h (alias_resolve al k) v of
        Inl e \<Rightarrow> add_kwargs al kvs h
      | Inr h' \<Rightarrow> add_kwargs al kvs h')"

text \<open>\<^verbatim>\<open>_set_kwargs\<close>, lines 262 to 277: the builds first, then the routines.\<close>

definition set_kwargs :: "composition \<Rightarrow> composition" where
  "set_kwargs m =
     m\<lparr>comp_kwargs :=
         fold (\<lambda>(key, st) h. add_kwargs (kw_alias st) (plugin_kwargs st) h)
           (comp_builds m @ comp_routines m) (comp_kwargs m)\<rparr>"

text \<open>
  The three registration tables of the module, \<^verbatim>\<open>_ROUTINE_PLUGINS\<close>, \<^verbatim>\<open>_BUILD_PLUGINS\<close>
  and \<^verbatim>\<open>MODEL_PLUGINS\<close>, as insertion-ordered dictionaries, and the warnings logged.
\<close>

record registry =
  ROUTINE_PLUGINS :: "(pyval \<times> plugin) list"
  BUILD_PLUGINS :: "(pyval \<times> plugin) list"
  MODEL_PLUGINS :: "(pyval \<times> composition) list"
  checked :: "pyval list"
  warnings :: "pyval list"

text \<open>
  The introspection functions of \<^verbatim>\<open>parsing.py\<close> are not part of this module; they are
  parameters of the registration functions.
\<close>

record parsing =
  parse_docstring :: "pyval \<Rightarrow> pyval"
  parse_kwargs :: "pyval \<Rightarrow> pyval"
  parse_header :: "composition \<Rightarrow> pyval \<times> pyval"

text \<open>
  Lines 57 to 60 (and 67 to 70): introspect the entry point, store the help and the
  keyword defaults on the plugin, and read the name again for the table key.
\<close>

definition introspect :: "parsing \<Rightarrow> string \<Rightarrow> plugin \<Rightarrow> error + (pyval \<times> plugin)" where
  "introspect ps entry p =
     (case getattr p entry of
        None \<Rightarrow> Inl (NoAttribute entry)
      | Some f \<Rightarrow>
          (let p1 = setattr p ''plugin_help'' (parse_docstring ps f);
               p2 = setattr p1 ''plugin_kwargs'' (parse_kwargs ps f)
           in case getattr p2 ''plugin_name'' of
                None \<Rightarrow> Inl (NoAttribute ''plugin_name'')
              | Some name \<Rightarrow> Inr (name, p2)))"

definition register_build :: "parsing \<Rightarrow> plugin \<Rightarrow> registry \<Rightarrow> registry outcome" where
  "register_build ps plugin reg =
     (case check_plugin plugin ''build'' (BUILD_PLUGINS reg) of
        Inl e \<Rightarrow> Raised e reg
      | Inr p \<Rightarrow>
          (case introspect ps ''build'' p of
             Inl e \<Rightarrow> Raised e reg
           | Inr (name, p') \<Rightarrow>
               Done (reg\<lparr>BUILD_PLUGINS := AList.update name p' (BUILD_PLUGINS reg)\<rparr>)))"

definition register_routine :: "parsing \<Rightarrow> plugin \<Rightarrow> registry \<Rightarrow> registry outcome" where
  "register_routine ps plugin reg =
     (case check_plugin plugin ''routine'' (ROUTINE_PLUGINS reg) of
        Inl e \<Rightarrow> Raised e reg
      | Inr p \<Rightarrow>
          (case introspect ps ''run'' p of
             Inl e \<Rightarrow> Raised e reg
           | Inr (name, p') \<Rightarrow>
               Done (reg\<lparr>ROUTINE_PLUGINS := AList.update name p' (ROUTINE_PLUGINS reg)\<rparr>)))"

text \<open>
  \<^verbatim>\<open>register_model\<close>, lines 73 to 80: \<^verbatim>\<open>_set_kwargs\<close> runs before the check.
\<close>

definition register_model :: "parsing \<Rightarrow> composition \<Rightarrow> registry \<Rightarrow> registry outcome" where
  "register_model ps plugin reg =
     (let m = set_kwargs plugin
      in case check_plugin m ''model'' (MODEL_PLUGINS reg) of
           Inl e \<Rightarrow> Raised e reg
         | Inr m1 \<Rightarrow>
             (let (h, d) = parse_header ps m1;
                  m2 = setattr m1 ''plugin_help'' h;
                  m3 = setattr m2 ''plugin_description'' d
              in case getattr m3 ''plugin_name'' of
                   None \<Rightarrow> Raised (NoAttribute ''plugin_name'') reg
                 | Some name \<Rightarrow>
                     Done (reg\<lparr>MODEL_PLUGINS := AList.update name m3 (MODEL_PLUGINS reg)\<rparr>)))"


subsection \<open>Discovery\<close>

text \<open>
  \<^verbatim>\<open>ModelPluginBase.check\<close>, lines 249 to 260: every attached routine must be a routine
  plugin, then every attached build a build plugin.
\<close>

definition check :: "composition \<Rightarrow> error option" where
  "check m =
     (if list_all (\<lambda>(key, r). kind r = RoutineStage) (comp_routines m)
      then (if list_all (\<lambda>(key, b). kind b = BuildStage) (comp_builds m)
            then None else Some CheckFailed)
      else Some CheckFailed)"

text \<open>
  The loop of \<^verbatim>\<open>find_models\<close>, lines 511 to 518. Line 513 calls \<^verbatim>\<open>v.check()\<close> outside
  the \<^verbatim>\<open>try\<close>; line 515 calls it again inside. \<open>checked\<close> records every call of
  \<^verbatim>\<open>check\<close>, \<open>warnings\<close> every warning logged. \<^verbatim>\<open>except Exception\<close> catches every
  error that \<open>check\<close> can raise.
\<close>

fun find_models_loop :: "pyval list \<Rightarrow> registry \<Rightarrow> registry outcome" where
  "find_models_loop [] reg = Done reg"
| "find_models_loop (k # ks) reg =
     (case map_of (MODEL_PLUGINS reg) k of
        None \<Rightarrow> Raised (NoSuchPlugin k) reg
      | Some v \<Rightarrow>
          (let reg1 = reg\<lparr>checked := checked reg @ [k]\<rparr>
           in case check v of
                Some e \<Rightarrow> Raised e reg1
              | None \<Rightarrow>
                  (let reg2 = reg1\<lparr>checked := checked reg1 @ [k]\<rparr>
                   in case check v of
                        Some e \<Rightarrow>
                          find_models_loop ks
                            (reg2\<lparr>warnings := warnings reg2 @ [k],
                                  MODEL_PLUGINS := AList.delete k (MODEL_PLUGINS reg2)\<rparr>)
                      | None \<Rightarrow> find_models_loop ks reg2)))"

text \<open>
  \<^verbatim>\<open>find_models\<close> after its imports (lines 506 and 507 scan the file system, which is
  outside the model): the registry is the one the imports left.
\<close>

definition find_models :: "registry \<Rightarrow> registry outcome" where
  "find_models reg = find_models_loop (map fst (MODEL_PLUGINS reg)) reg"

section \<open>The procedure scheduler\<close>

text \<open>
  A value of the pool is a tensor: its content and its gradient-tracking flag.
  \<^verbatim>\<open>detach()\<close> gives the same content with tracking off.
\<close>

record tensor =
  payload :: int
  requires_grad :: bool

definition detach :: "tensor \<Rightarrow> tensor" where
  "detach t = t\<lparr>requires_grad := False\<rparr>"

text \<open>A scalar result is a float: a finite number, not-a-number or an infinity.\<close>

datatype scalar = Finite int | NaN | PosInf | NegInf

text \<open>
  What a routine input is bound to: one pool value, an ordered sequence of pool values, or
  \<^verbatim>\<open>None\<close>.
\<close>

datatype wired = One tensor | Many "tensor list" | Absent

text \<open>
  What a call of a routine leaves behind: its return value (a dictionary of named outputs,
  or \<^verbatim>\<open>None\<close>), the results and losses it wrote (a loss may be \<^verbatim>\<open>None\<close>) and the time
  it took.
\<close>

record call_result =
  returned :: "(string \<times> tensor) list option"
  new_results :: "(string \<times> scalar) list"
  new_losses :: "(string \<times> scalar option) list"
  elapsed :: nat

type_synonym kwargs = "(string \<times> pyval) list"

type_synonym computation = "kwargs \<Rightarrow> (string \<times> wired) list \<Rightarrow> error + call_result"

text \<open>
  \<^verbatim>\<open>RoutinePluginBase.perform\<close>, lines 143 to 148: the plugin's \<^verbatim>\<open>run\<close> is called with the
  routine's own keyword view and its return value is dropped (there is no \<^verbatim>\<open>return\<close>).
\<close>

definition perform :: "computation option \<Rightarrow> kwargs \<Rightarrow> (string \<times> wired) list \<Rightarrow> error + call_result" where
  "perform run self_kwargs ins =
     (case run of
        None \<Rightarrow> Inl NoRunMethod
      | Some f \<Rightarrow>
          (case f self_kwargs ins of
             Inl e \<Rightarrow> Inl e
           | Inr res \<Rightarrow> Inr (res\<lparr>returned := None\<rparr>)))"

text \<open>
  \<^verbatim>\<open>RoutinePluginBase.__call__(self)\<close>, lines 150 to 156: it takes no keyword argument, so
  a call with one is a \<^verbatim>\<open>TypeError\<close>; both device branches return \<^verbatim>\<open>self.perform()\<close>.
\<close>

definition RoutinePluginBase_call :: "bool \<Rightarrow> computation option \<Rightarrow> kwargs \<Rightarrow> computation" where
  "RoutinePluginBase_call device_is_cpu run self_kwargs call_kwargs ins =
     (case call_kwargs of
        (k, v) # rest \<Rightarrow> Inl (UnexpectedKeyword k)
      | [] \<Rightarrow> (if device_is_cpu then perform run self_kwargs ins
               else perform run self_kwargs ins))"

text \<open>
  A routine instance as \<^verbatim>\<open>run_procedure\<close> uses it. \<^verbatim>\<open>plugin_inputs\<close>, \<^verbatim>\<open>_names\<close>,
  \<^verbatim>\<open>training_nets\<close> and \<^verbatim>\<open>inputs\<close> are attributes that the plugin class outside this
  module supplies; \<open>nets\<close> lists the keys that \<^verbatim>\<open>routine.nets[k]\<close> finds; \<open>call\<close> is what
  \<^verbatim>\<open>routine(**kwargs)\<close> dispatches to: \<open>RoutinePluginBase_call\<close> for a class that inherits
  \<^verbatim>\<open>__call__\<close>, the class's own method otherwise.
\<close>

record routine =
  plugin_inputs :: "string list"
  plugin_optional_inputs :: "string list"
  names :: "(string \<times> send) list"
  nets :: "string list"
  training_nets :: "string list"
  inputs :: "(string \<times> wired) list"
  results :: "(string \<times> scalar) list"
  losses :: "(string \<times> scalar option) list"
  call :: computation

text \<open>The effects on the collaborators outside the module, in the order they happen.\<close>

datatype event =
    Fetch
  | ZeroGrad string
  | EnableGrad string
  | Invoke string
  | Backward string
  | OptimizerStep string
  | Print "(string \<times> scalar) list" "(string \<times> scalar) list"

text \<open>
  The composition at run time (\<^verbatim>\<open>self\<close> of \<^verbatim>\<open>run_procedure\<close>), the globals it reaches
  and the locals of the call. The data source is the sequence of its batches and the
  number of \<^verbatim>\<open>next()\<close> calls made; \<open>optimizers\<close> lists the keys of
  \<^verbatim>\<open>optimizer.OPTIMIZERS\<close>; \<open>acc_results\<close>, \<open>acc_losses\<close> and \<open>acc_time\<close> are
  \<^verbatim>\<open>self._results\<close> without its two nested dictionaries, \<^verbatim>\<open>self._results['losses']\<close> and
  \<^verbatim>\<open>self._results['time']\<close>. The locals are \<open>pool\<close> (\<^verbatim>\<open>inputs\<close>), \<open>cur\<close> (the key of
  the object that \<^verbatim>\<open>routine\<close> is bound to, if it is bound), \<open>kwargs\<close>, \<open>outputs\<close>,
  \<open>start_time\<close> and \<open>end_time\<close>.
\<close>

record state =
  source :: "nat \<Rightarrow> (string \<times> tensor) list"
  position :: nat
  routines :: "(string \<times> routine) list"
  kwargs_table :: "(string \<times> kwargs) list"
  train_procedures :: "(string \<times> string list \<times> int list) list"
  optimizers :: "string list"
  model_losses :: "(string \<times> scalar option) list"
  acc_results :: "(string \<times> scalar list) list"
  acc_losses :: "(string \<times> scalar list) list"
  acc_time :: "(string \<times> nat list) list"
  clock :: nat
  trace :: "event list"
  pool :: "(string \<times> tensor) list"
  cur :: "string option"
  kwargs :: kwargs
  outputs :: "(string \<times> tensor) list option"
  start_time :: nat
  end_time :: nat

definition emit :: "event \<Rightarrow> state \<Rightarrow> state" where
  "emit ev s = s\<lparr>trace := trace s @ [ev]\<rparr>"

text \<open>
  Modelled from the spec: the data handler (\<^verbatim>\<open>data.DATA_HANDLER\<close>) is missing. The spec
  gives it an operation that advances to the next batch, \<^verbatim>\<open>self._data.next()\<close>, and an
  accessor of the current batch, \<^verbatim>\<open>self._data.batch\<close>, a mapping from field names to
  values.
\<close>

definition data_next :: "state \<Rightarrow> state" where
  "data_next s = emit Fetch (s\<lparr>position := position s + 1\<rparr>)"

definition batch :: "state \<Rightarrow> (string \<times> tensor) list" where
  "batch s = source s (position s)"

text \<open>\<^verbatim>\<open>RoutinePluginBase.reset\<close>, lines 158 to 161.\<close>

definition reset :: "routine \<Rightarrow> routine" where
  "reset r = r\<lparr>results := [], losses := [], inputs := []\<rparr>"

text \<open>\<^verbatim>\<open>ModelPluginBase.reset_routines\<close>, lines 433 to 436.\<close>

definition reset_routines :: "state \<Rightarrow> state" where
  "reset_routines s =
     s\<lparr>model_losses := [], routines := map (\<lambda>(k, r). (k, reset r)) (routines s)\<rparr>"

text \<open>Writing through the reference \<^verbatim>\<open>routine\<close>: the object stored under the key changes.\<close>

definition set_routine :: "string \<Rightarrow> routine \<Rightarrow> state \<Rightarrow> state" where
  "set_routine key r s = s\<lparr>routines := AList.update key r (routines s)\<rparr>"

text \<open>\<^verbatim>\<open>routine._names.get(k, k)\<close>.\<close>

definition names_get :: "(string \<times> send) list \<Rightarrow> string \<Rightarrow> send" where
  "names_get ns k = (case map_of ns k of None \<Rightarrow> Key k | Some target \<Rightarrow> target)"

text \<open>
  \<^verbatim>\<open>optimizer.OPTIMIZERS[k_]\<close>: a list is not hashable, a tuple is not one of the string
  keys.
\<close>

definition optimizer_lookup :: "state \<Rightarrow> send \<Rightarrow> error + string" where
  "optimizer_lookup s target =
     (case target of
        Key k \<Rightarrow> if k \<in> set (optimizers s) then Inr k else Inl (NoSuchKey target)
      | KeyList ks \<Rightarrow> Inl Unhashable
      | KeyTuple ks \<Rightarrow> Inl (NoSuchKey target))"


text \<open>
  The local \<^verbatim>\<open>routine\<close> is a reference to the object stored under its key; every phase
  of an iteration reads the object there and writes it back.
\<close>

definition with_routine :: "string \<Rightarrow> (routine \<Rightarrow> state \<Rightarrow> state outcome) \<Rightarrow> state \<Rightarrow> state outcome" where
  "with_routine key f s =
     (case map_of (routines s) key of
        None \<Rightarrow> Raised (NoSuchKey (Key key)) s
      | Some r \<Rightarrow> f r s)"

text \<open>Lines 342 and 343.\<close>

definition refetch :: "nat \<Rightarrow> state \<Rightarrow> state" where
  "refetch u s = (if u > 0 then data_next s else s)"

text \<open>Lines 345 to 347.\<close>

definition bind_routine :: "string \<Rightarrow> state \<Rightarrow> state outcome" where
  "bind_routine key s =
     (case map_of (routines s) key of
        None \<Rightarrow> Raised (NoSuchKey (Key key)) s
      | Some r \<Rightarrow>
          (let s1 = s\<lparr>cur := Some key\<rparr>
           in case map_of (kwargs_table s1) key of
                None \<Rightarrow> Raised (NoSuchKey (Key key)) s1
              | Some kw \<Rightarrow> Done (set_routine key (reset r) (s1\<lparr>kwargs := kw\<rparr>))))"

text \<open>Lines 351 to 357.\<close>

fun enable_loop :: "routine \<Rightarrow> string list \<Rightarrow> state \<Rightarrow> state outcome" where
  "enable_loop r [] s = Done s"
| "enable_loop r (k # ks) s =
     (case optimizer_lookup s (names_get (names r) k) of
        Inl e \<Rightarrow> Raised e s
      | Inr k' \<Rightarrow>
          (let s1 = emit (ZeroGrad k') s
           in if k \<in> set (nets r) then enable_loop r ks (emit (EnableGrad k) s1)
              else Raised (NoSuchKey (Key k)) s1))"

definition enable_grad :: "bool \<Rightarrow> string \<Rightarrow> state \<Rightarrow> state outcome" where
  "enable_grad train key s =
     (if train then with_routine key (\<lambda>r. enable_loop r (training_nets r)) s else Done s)"

text \<open>
  \<^verbatim>\<open>inputs[send]\<close>, or \<^verbatim>\<open>[inputs[s] for s in send]\<close> for a list or a tuple: \<open>None\<close> when a
  lookup raises \<^verbatim>\<open>KeyError\<close>.
\<close>

definition resolve :: "(string \<times> tensor) list \<Rightarrow> send \<Rightarrow> wired option" where
  "resolve p target =
     (case target of
        Key k \<Rightarrow> map_option One (map_of p k)
      | KeyList ks \<Rightarrow> map_option Many (those (map (map_of p) ks))
      | KeyTuple ks \<Rightarrow> map_option Many (those (map (map_of p) ks)))"

text \<open>
  Lines 360 to 373: the required inputs. The result is the error raised, if any, and the
  routine's inputs as the loop left them.
\<close>

fun wire_required ::
  "(string \<times> tensor) list \<Rightarrow> (string \<times> send) list \<Rightarrow> string list \<Rightarrow> (string \<times> wired) list
     \<Rightarrow> error option \<times> (string \<times> wired) list" where
  "wire_required p ns [] ins = (None, ins)"
| "wire_required p ns (receive # rest) ins =
     (case resolve p (names_get ns receive) of
        None \<Rightarrow> (Some (NotInInputs (names_get ns receive) (map fst p)), ins)
      | Some w \<Rightarrow> wire_required p ns rest (AList.update receive w ins))"

text \<open>Lines 376 to 386: the optional inputs; \<^verbatim>\<open>except BaseException\<close> binds \<^verbatim>\<open>None\<close>.\<close>

fun wire_optional ::
  "(string \<times> tensor) list \<Rightarrow> (string \<times> send) list \<Rightarrow> string list \<Rightarrow> (string \<times> wired) list
     \<Rightarrow> (string \<times> wired) list" where
  "wire_optional p ns [] ins = ins"
| "wire_optional p ns (receive # rest) ins =
     (case resolve p (names_get ns receive) of
        None \<Rightarrow> wire_optional p ns rest (AList.update receive Absent ins)
      | Some w \<Rightarrow> wire_optional p ns rest (AList.update receive w ins))"

definition wire_inputs :: "string \<Rightarrow> state \<Rightarrow> state outcome" where
  "wire_inputs key s =
     with_routine key (\<lambda>r s.
       case wire_required (pool s) (names r) (plugin_inputs r) (inputs r) of
         (Some e, ins) \<Rightarrow> Raised e (set_routine key (r\<lparr>inputs := ins\<rparr>) s)
       | (None, ins) \<Rightarrow>
           Done (set_routine key
             (r\<lparr>inputs := wire_optional (pool s) (names r) (plugin_optional_inputs r) ins\<rparr>) s)) s"

text \<open>
  Lines 388 and 389: \<^verbatim>\<open>outputs = routine(**kwargs)\<close>. The call writes the routine's
  results and losses, which \<^verbatim>\<open>reset\<close> has just cleared.
\<close>

definition invoke :: "string \<Rightarrow> state \<Rightarrow> state outcome" where
  "invoke key s =
     with_routine key (\<lambda>r s.
       (let s1 = emit (Invoke key) (s\<lparr>start_time := clock s\<rparr>)
        in case call r (kwargs s1) (inputs r) of
             Inl e \<Rightarrow> Raised e s1
           | Inr res \<Rightarrow>
               Done (set_routine key (r\<lparr>results := new_results res, losses := new_losses res\<rparr>)
                 (s1\<lparr>outputs := returned res, clock := clock s1 + elapsed res\<rparr>)))) s"

text \<open>Lines 392 to 399.\<close>

fun backprop_loop :: "routine \<Rightarrow> (string \<times> scalar option) list \<Rightarrow> state \<Rightarrow> state outcome" where
  "backprop_loop r [] s = Done s"
| "backprop_loop r ((k, loss) # rest) s =
     (case loss of
        None \<Rightarrow> backprop_loop r rest s
      | Some l \<Rightarrow>
          (let s1 = emit (Backward k) s
           in case optimizer_lookup s1 (names_get (names r) k) of
                Inl e \<Rightarrow> Raised e s1
              | Inr k' \<Rightarrow> backprop_loop r rest (emit (OptimizerStep k') s1)))"

definition backprop :: "bool \<Rightarrow> string \<Rightarrow> state \<Rightarrow> state outcome" where
  "backprop train key s =
     and_then
       (if train then with_routine key (\<lambda>r. backprop_loop r (losses r)) s else Done s)
       (\<lambda>s. Done (s\<lparr>end_time := clock s\<rparr>))"

text \<open>Lines 402 to 409.\<close>

fun emit_loop :: "string \<Rightarrow> (string \<times> tensor) list \<Rightarrow> state \<Rightarrow> state outcome" where
  "emit_loop key [] s = Done s"
| "emit_loop key ((k, v) # rest) s =
     (let k' = key @ ''.'' @ k
      in if k' \<in> fst ` set (pool s) then Raised (AlreadyInInputs k') s
         else emit_loop key rest (s\<lparr>pool := AList.update k' (detach v) (pool s)\<rparr>))"

definition emit_outputs :: "string \<Rightarrow> int \<Rightarrow> nat \<Rightarrow> state \<Rightarrow> state outcome" where
  "emit_outputs key update u s =
     (if int u = update - 1
      then (case outputs s of
              None \<Rightarrow> Raised (NoneHasNo ''items'') s
            | Some outs \<Rightarrow> emit_loop key outs s)
      else Done s)"

text \<open>Lines 412 to 414.\<close>

definition add_trained :: "string list \<Rightarrow> string list \<Rightarrow> string list" where
  "add_trained loss_keys tn = fold (\<lambda>k tn. if k \<in> set tn then tn else tn @ [k]) loss_keys tn"

definition record_trained :: "string \<Rightarrow> state \<Rightarrow> state outcome" where
  "record_trained key s =
     with_routine key (\<lambda>r s.
       Done (set_routine key
         (r\<lparr>training_nets := add_trained (map fst (losses r)) (training_nets r)\<rparr>) s)) s"

text \<open>
  Modelled from the spec: \<^verbatim>\<open>bad_values\<close> of \<^verbatim>\<open>utils.py\<close> is missing. It gives the entries
  of the results that are not-a-number or infinite; the result is false when there is none.
\<close>

definition is_bad :: "scalar \<Rightarrow> bool" where
  "is_bad v = (v = NaN \<or> v = PosInf \<or> v = NegInf)"

definition bad_values :: "(string \<times> scalar) list \<Rightarrow> (string \<times> scalar) list" where
  "bad_values d = filter (\<lambda>(k, v). is_bad v) d"

text \<open>Lines 417 to 422.\<close>

definition anomaly_check :: "bool \<Rightarrow> string \<Rightarrow> state \<Rightarrow> state outcome" where
  "anomaly_check quit_on_bad_values key s =
     with_routine key (\<lambda>r s.
       (let bads = bad_values (results r)
        in if bads \<noteq> [] \<and> quit_on_bad_values
           then Exited (emit (Print bads (results r)) s)
           else Done s)) s"

text \<open>The body of the loop over \<^verbatim>\<open>u\<close>, lines 342 to 422.\<close>

definition run_iteration :: "bool \<Rightarrow> bool \<Rightarrow> string \<Rightarrow> int \<Rightarrow> nat \<Rightarrow> state \<Rightarrow> state outcome" where
  "run_iteration train quit_on_bad_values key update u s =
     and_then (and_then (and_then (and_then (and_then (and_then (and_then
       (bind_routine key (refetch u s))
       (enable_grad train key))
       (wire_inputs key))
       (invoke key))
       (backprop train key))
       (emit_outputs key update u))
       (record_trained key))
       (anomaly_check quit_on_bad_values key)"

text \<open>\<^verbatim>\<open>for u in range(update)\<close>, over the list of the values of \<^verbatim>\<open>u\<close>.\<close>

fun run_repeats :: "bool \<Rightarrow> bool \<Rightarrow> string \<Rightarrow> int \<Rightarrow> nat list \<Rightarrow> state \<Rightarrow> state outcome" where
  "run_repeats train quit_on_bad_values key update [] s = Done s"
| "run_repeats train quit_on_bad_values key update (u # us) s =
     and_then (run_iteration train quit_on_bad_values key update u s)
       (run_repeats train quit_on_bad_values key update us)"

definition py_range :: "int \<Rightarrow> nat list" where
  "py_range n = [0..<nat n]"


text \<open>
  Modelled from the spec: \<^verbatim>\<open>update_dict_of_lists\<close> of \<^verbatim>\<open>utils.py\<close> is missing. For each
  key it appends the value to that key's history, creating the history on first use.
\<close>

definition append_history :: "string \<Rightarrow> 'v \<Rightarrow> (string \<times> 'v list) list \<Rightarrow> (string \<times> 'v list) list" where
  "append_history k v d =
     (case map_of d k of
        None \<Rightarrow> AList.update k [v] d
      | Some h \<Rightarrow> AList.update k (h @ [v]) d)"

definition update_dict_of_lists ::
  "(string \<times> 'v list) list \<Rightarrow> (string \<times> 'v) list \<Rightarrow> (string \<times> 'v list) list" where
  "update_dict_of_lists d_to_update d = fold (\<lambda>(k, v). append_history k v) d d_to_update"

text \<open>
  Line 428: \<^verbatim>\<open>self._results\<close> holds two dictionaries under \<^verbatim>\<open>'losses'\<close> and \<^verbatim>\<open>'time'\<close>, so
  a result of one of these names reaches \<^verbatim>\<open>append\<close> on a dictionary.
\<close>

fun update_results :: "(string \<times> scalar) list \<Rightarrow> state \<Rightarrow> state outcome" where
  "update_results [] s = Done s"
| "update_results ((k, v) # rest) s =
     (if k = ''losses'' \<or> k = ''time'' then Raised (NotAList k) s
      else update_results rest (s\<lparr>acc_results := append_history k v (acc_results s)\<rparr>))"

text \<open>Lines 424 and 425: \<^verbatim>\<open>v.item()\<close> of every loss; \<open>None\<close> has no \<^verbatim>\<open>item\<close>.\<close>

fun loss_items :: "(string \<times> scalar option) list \<Rightarrow> (string \<times> scalar) list option" where
  "loss_items [] = Some []"
| "loss_items ((k, None) # rest) = None"
| "loss_items ((k, Some v) # rest) = map_option ((#) (k, v)) (loss_items rest)"

text \<open>
  Lines 424 to 431, after the loop over \<^verbatim>\<open>u\<close>: \<^verbatim>\<open>routine\<close>, \<^verbatim>\<open>start_time\<close> and
  \<^verbatim>\<open>end_time\<close> are the locals that the last iteration run so far has left.
\<close>

definition finish_pair :: "string \<Rightarrow> state \<Rightarrow> state outcome" where
  "finish_pair key s =
     (case cur s of
        None \<Rightarrow> Raised (UnboundLocal ''routine'') s
      | Some bound \<Rightarrow>
          with_routine bound (\<lambda>r s.
            case loss_items (losses r) of
              None \<Rightarrow> Raised (NoneHasNo ''item'') s
            | Some routine_losses \<Rightarrow>
                and_then (update_results (results r) s) (\<lambda>s.
                  Done (s\<lparr>acc_losses := update_dict_of_lists (acc_losses s) routine_losses,
                          acc_time := update_dict_of_lists (acc_time s)
                                        [(key, end_time s - start_time s)]\<rparr>))) s)"

text \<open>The loop over the scheduled pairs, lines 338 to 431.\<close>

fun run_pairs :: "bool \<Rightarrow> bool \<Rightarrow> (string \<times> int) list \<Rightarrow> state \<Rightarrow> state outcome" where
  "run_pairs train quit_on_bad_values [] s = Done s"
| "run_pairs train quit_on_bad_values ((key, update) # rest) s =
     (let update' = (if \<not> train then 1 else update)
      in and_then
           (and_then
              (run_repeats train quit_on_bad_values key update' (py_range update') s)
              (finish_pair key))
           (run_pairs train quit_on_bad_values rest))"

text \<open>Python's list index: a negative index counts from the end.\<close>

definition py_index :: "'a list \<Rightarrow> int \<Rightarrow> 'a option" where
  "py_index xs i =
     (let n = int (length xs); j = (if i < 0 then n + i else i)
      in if 0 \<le> j \<and> j < n then Some (xs ! nat j) else None)"

text \<open>Lines 335 and 336: the pool is seeded with one entry for each field of the batch.\<close>

definition seed :: "(string \<times> tensor) list \<Rightarrow> (string \<times> tensor) list" where
  "seed b = fold (\<lambda>(k, v). AList.update (''data.'' @ k) v) b []"

text \<open>
  \<^verbatim>\<open>ModelPluginBase.run_procedure\<close>, lines 329 to 431. The locals of the call start
  unbound.
\<close>

definition run_procedure :: "int \<Rightarrow> bool \<Rightarrow> bool \<Rightarrow> state \<Rightarrow> state outcome" where
  "run_procedure i quit_on_bad_values train s =
     (let s1 = reset_routines (data_next s);
          s2 = s1\<lparr>pool := [], cur := None, kwargs := [], outputs := None\<rparr>
      in case py_index (train_procedures s2) i of
           None \<Rightarrow> Raised IndexOutOfRange s2
         | Some (mode, procedure, updates) \<Rightarrow>
             run_pairs train quit_on_bad_values (zip procedure updates)
               (s2\<lparr>pool := seed (batch s2)\<rparr>))"

text \<open>\<^verbatim>\<open>ModelPluginBase.train\<close>, lines 325 to 327.\<close>

definition train_step :: "int \<Rightarrow> bool \<Rightarrow> state \<Rightarrow> state outcome" where
  "train_step i quit_on_bad_values s = run_procedure i quit_on_bad_values True s"

text \<open>
  A run: the driver calls \<^verbatim>\<open>run_procedure\<close> step after step, each with its index, its
  strict-mode flag and its mode, until a step does not end normally.
\<close>

fun run_steps :: "(int \<times> bool \<times> bool) list \<Rightarrow> state \<Rightarrow> state outcome" where
  "run_steps [] s = Done s"
| "run_steps ((i, quit_on_bad_values, train) # rest) s =
     and_then (run_procedure i quit_on_bad_values train s) (run_steps rest)"

text \<open>The routines invoked, in order, read off the trace.\<close>

fun invoked :: "event list \<Rightarrow> string list" where
  "invoked [] = []"
| "invoked (Invoke key # evs) = key # invoked evs"
| "invoked (ev # evs) = invoked evs"

text \<open>What was printed, in order, read off the trace.\<close>

fun printed :: "event list \<Rightarrow> (string \<times> scalar) list list" where
  "printed [] = []"
| "printed (Print bads res # evs) = bads # printed evs"
| "printed (ev # evs) = printed evs"

text \<open>The trained resources recorded for the routine stored under a key.\<close>

definition trained :: "state \<Rightarrow> string \<Rightarrow> string list" where
  "trained s key = (case map_of (routines s) key of None \<Rightarrow> [] | Some r \<Rightarrow> training_nets r)"

text \<open>The error of an outcome, if it is one.\<close>

fun raised :: "'s outcome \<Rightarrow> error option" where
  "raised (Done s) = None"
| "raised (Raised e s) = Some e"
| "raised (Exited s) = None"

fun is_done :: "'s outcome \<Rightarrow> bool" where
  "is_done (Done s) = True"
| "is_done (Raised e s) = False"
| "is_done (Exited s) = False"

fun is_exited :: "'s outcome \<Rightarrow> bool" where
  "is_exited (Done s) = False"
| "is_exited (Raised e s) = False"
| "is_exited (Exited s) = True"

section \<open>Notions used in the statements\<close>

text \<open>
  The invocations that a procedure schedules: in evaluation mode each routine once, in
  training mode each routine as many times as its repeat-count says.
\<close>

definition scheduled :: "bool \<Rightarrow> (string \<times> int) list \<Rightarrow> string list" where
  "scheduled train pairs =
     concat (map (\<lambda>(key, update). replicate (if train then nat update else 1) key) pairs)"

text \<open>
  A list has only grown: the new list starts with the old one, and what follows is
  without repetition and was not in the old one.
\<close>

definition grows_from :: "string list \<Rightarrow> string list \<Rightarrow> bool" where
  "grows_from old new =
     (take (length old) new = old \<and> distinct (drop (length old) new) \<and>
      list_all (\<lambda>k. k \<notin> set old) (drop (length old) new))"

text \<open>A plugin passes the protected-attribute and the required-attribute checks.\<close>

definition passes_checks :: "'a plugin_scheme \<Rightarrow> bool" where
  "passes_checks p =
     (list_all (\<lambda>k. \<not> hasattr p k) (protected p) \<and>
      list_all (\<lambda>k. getattr_default p k PyNone \<noteq> PyNone) (required p))"

text \<open>
  The state in which the loop over the scheduled pairs starts: after the fetch, the reset
  and the seeding of the pool, lines 330 to 336.
\<close>

definition entry :: "state \<Rightarrow> state" where
  "entry s =
     (let s1 = reset_routines (data_next s);
          s2 = s1\<lparr>pool := [], cur := None, kwargs := [], outputs := None\<rparr>
      in s2\<lparr>pool := seed (batch s2)\<rparr>)"

section \<open>Example inputs\<close>

definition example_parsing :: parsing where
  "example_parsing =
     \<lparr>parse_docstring = (\<lambda>f. PyStr ''help''), parse_kwargs = (\<lambda>f. PyDict []),
      parse_header = (\<lambda>m. (PyStr ''help'', PyStr ''description''))\<rparr>"

definition empty_registry :: registry where
  "empty_registry =
     \<lparr>ROUTINE_PLUGINS = [], BUILD_PLUGINS = [], MODEL_PLUGINS = [], checked = [], warnings = []\<rparr>"

definition unnamed_build :: plugin where
  "unnamed_build =
     \<lparr>attrs = [(''plugin_name'', PyNone), (''build'', PyObj 0)],
      protected = [''updates''], required = [''build'']\<rparr>"

definition unnamed_routine :: plugin where
  "unnamed_routine =
     \<lparr>attrs = [(''plugin_name'', PyNone), (''run'', PyObj 1)],
      protected = [''updates''], required = [''run'']\<rparr>"

definition unnamed_model :: composition where
  "unnamed_model =
     \<lparr>attrs = [(''plugin_name'', PyNone)], protected = [], required = [],
      comp_routines = [], comp_builds = [], comp_kwargs = []\<rparr>"

definition gan_build :: plugin where
  "gan_build =
     \<lparr>attrs = [(''plugin_name'', PyStr ''gan''), (''build'', PyObj 0), (''run'', PyObj 1)],
      protected = [], required = []\<rparr>"

definition gan_model :: composition where
  "gan_model =
     \<lparr>attrs = [(''plugin_name'', PyStr ''gan'')], protected = [], required = [],
      comp_routines = [], comp_builds = [], comp_kwargs = []\<rparr>"

definition gan_registry :: registry where
  "gan_registry =
     \<lparr>ROUTINE_PLUGINS = [(PyStr ''gan'', gan_build)], BUILD_PLUGINS = [(PyStr ''gan'', gan_build)],
      MODEL_PLUGINS = [(PyStr ''gan'', gan_model)], checked = [], warnings = []\<rparr>"

definition broken_model :: composition where
  "broken_model =
     \<lparr>attrs = [(''plugin_name'', PyStr ''broken'')], protected = [], required = [],
      comp_routines = [(''main'', \<lparr>kind = OtherObject, plugin_kwargs = [], kw_alias = []\<rparr>)],
      comp_builds = [], comp_kwargs = []\<rparr>"

definition sound_model :: composition where
  "sound_model =
     \<lparr>attrs = [(''plugin_name'', PyStr ''sound'')], protected = [], required = [],
      comp_routines = [(''main'', \<lparr>kind = RoutineStage, plugin_kwargs = [], kw_alias = []\<rparr>)],
      comp_builds = [(''nets'', \<lparr>kind = BuildStage, plugin_kwargs = [], kw_alias = []\<rparr>)],
      comp_kwargs = []\<rparr>"

definition discovered :: registry where
  "discovered =
     \<lparr>ROUTINE_PLUGINS = [], BUILD_PLUGINS = [],
      MODEL_PLUGINS = [(PyStr ''broken'', broken_model), (PyStr ''sound'', sound_model)],
      checked = [], warnings = []\<rparr>"

definition numbered_batches :: "nat \<Rightarrow> (string \<times> tensor) list" where
  "numbered_batches n = [(''x'', \<lparr>payload = int n, requires_grad = False\<rparr>)]"

definition blank :: state where
  "blank =
     \<lparr>source = numbered_batches, position = 0, routines = [], kwargs_table = [],
      train_procedures = [], optimizers = [], model_losses = [], acc_results = [],
      acc_losses = [], acc_time = [], clock = 0, trace = [], pool = [], cur = None,
      kwargs = [], outputs = None, start_time = 0, end_time = 0\<rparr>"

definition encoder_run :: computation where
  "encoder_run kw ins =
     Inr \<lparr>returned = Some [(''code'', \<lparr>payload = 5, requires_grad = True\<rparr>)],
          new_results = [], new_losses = [], elapsed = 1\<rparr>"

definition encoder :: routine where
  "encoder =
     \<lparr>plugin_inputs = [''x''], plugin_optional_inputs = [],
      names = [(''x'', Key ''data.x'')], nets = [], training_nets = [],
      inputs = [], results = [], losses = [],
      call = RoutinePluginBase_call True (Some encoder_run) [(''dim'', PyInt 64)]\<rparr>"

definition encoder_model :: state where
  "encoder_model =
     blank\<lparr>routines := [(''encoder'', encoder)],
           kwargs_table := [(''encoder'', [(''dim'', PyInt 64)])],
           train_procedures := [(''main'', [''encoder''], [1])]\<rparr>"

definition critic :: routine where
  "critic =
     \<lparr>plugin_inputs = [''x''], plugin_optional_inputs = [''label''],
      names = [(''x'', Key ''data.x'')], nets = [''net''], training_nets = [],
      inputs = [], results = [], losses = [],
      call = (\<lambda>kw ins. Inr \<lparr>returned = Some [(''score'', \<lparr>payload = 7, requires_grad = True\<rparr>)],
        new_results = [(''accuracy'', Finite 1)], new_losses = [(''net'', Some (Finite 3))],
        elapsed = 2\<rparr>)\<rparr>"

definition critic_model :: state where
  "critic_model =
     blank\<lparr>routines := [(''critic'', critic)], kwargs_table := [(''critic'', [])],
           train_procedures := [(''main'', [''critic''], [2])], optimizers := [''net'']\<rparr>"

definition first_batch :: "(string \<times> tensor) list" where
  "first_batch = [(''data.x'', \<lparr>payload = 1, requires_grad = False\<rparr>)]"

definition seeded :: state where
  "seeded = critic_model\<lparr>position := 1, pool := first_batch\<rparr>"

definition viewer :: routine where
  "viewer = critic\<lparr>plugin_inputs := [''image''], names := []\<rparr>"

definition viewer_model :: state where
  "viewer_model = seeded\<lparr>routines := [(''viewer'', viewer)], kwargs_table := [(''viewer'', [])]\<rparr>"

definition clashing :: state where
  "clashing =
     seeded\<lparr>pool := first_batch @ [(''critic.score'', \<lparr>payload = 0, requires_grad = False\<rparr>)],
            outputs := Some [(''score'', \<lparr>payload = 7, requires_grad = True\<rparr>)]\<rparr>"

definition sampler :: routine where
  "sampler =
     \<lparr>plugin_inputs = [], plugin_optional_inputs = [], names = [], nets = [],
      training_nets = [], inputs = [], results = [(''loss'', NaN)], losses = [],
      call = (\<lambda>kw ins. Inr \<lparr>returned = Some [], new_results = [(''loss'', NaN)],
        new_losses = [], elapsed = 1\<rparr>)\<rparr>"

definition sampler_model :: state where
  "sampler_model =
     blank\<lparr>routines := [(''sampler'', sampler)], kwargs_table := [(''sampler'', [])],
           train_procedures := [(''main'', [''sampler''], [1])]\<rparr>"

definition loader :: routine where
  "loader =
     \<lparr>plugin_inputs = [], plugin_optional_inputs = [], names = [], nets = [],
      training_nets = [], inputs = [], results = [], losses = [],
      call = (\<lambda>kw ins. Inr \<lparr>returned = Some [(''x'', \<lparr>payload = 9, requires_grad = True\<rparr>)],
        new_results = [(''loss'', NaN)], new_losses = [], elapsed = 1\<rparr>)\<rparr>"

definition loader_model :: state where
  "loader_model =
     blank\<lparr>routines := [(''data'', loader)], kwargs_table := [(''data'', [])],
           train_procedures := [(''main'', [''data''], [1])]\<rparr>"

definition mixed_model :: state where
  "mixed_model =
     blank\<lparr>routines := [(''critic'', critic), (''sampler'', sampler)],
           kwargs_table := [(''critic'', []), (''sampler'', [])],
           train_procedures := [(''main'', [''critic'', ''sampler'', ''critic''], [1, 2, 1])],
           optimizers := [''net'']\<rparr>"

section \<open>Properties of the registry\<close>

lemma getattr_setattr: "getattr (setattr p k v) k' = (if k' = k then Some v else getattr p k')"
  by (simp add: getattr_def setattr_def update_conv')

lemma getattr_set_kwargs: "getattr (set_kwargs m) k = getattr m k"
  by (simp add: getattr_def set_kwargs_def)

lemma setattr_same: "getattr p k = Some v \<Longrightarrow> setattr p k v = p"
  by (simp add: getattr_def setattr_def update_triv)

lemma check_required_pass:
  "\<forall>k\<in>set ks. getattr_default p k PyNone \<noteq> PyNone \<Longrightarrow> check_required p ks = Inr p"
proof (induction ks)
  case Nil
  then show ?case by simp
next
  case (Cons k ks)
  from Cons.prems have nn: "getattr_default p k PyNone \<noteq> PyNone" by simp
  then obtain v where v: "getattr p k = Some v" "getattr_default p k PyNone = v"
    by (auto simp: getattr_default_def getattr_def split: option.splits)
  then have "setattr p k (getattr_default p k PyNone) = p"
    by (simp add: setattr_same)
  with Cons nn show ?case by (simp add: Let_def)
qed

lemma check_protected_pass:
  "\<forall>k\<in>set ks. \<not> hasattr p k \<Longrightarrow> check_protected p ks = None"
  by (induction ks) auto

lemma check_plugin_duplicate:
  "getattr p ''plugin_name'' = Some name \<Longrightarrow> name \<in> fst ` set D \<Longrightarrow>
   check_plugin p t D = Inl (AlreadyRegistered t name)"
  by (simp add: check_plugin_def)

lemma check_plugin_unnamed:
  "getattr p ''plugin_name'' = Some PyNone \<Longrightarrow> PyNone \<notin> fst ` set D \<Longrightarrow> passes_checks p \<Longrightarrow>
   check_plugin p t D = Inr p"
  by (simp add: check_plugin_def passes_checks_def list_all_iff check_protected_pass
      check_required_pass)

lemma check_plugin_unhashable:
  "getattr p ''plugin_name'' = Some (PyDict items) \<Longrightarrow> PyDict items \<notin> fst ` set D \<Longrightarrow>
   check_plugin p t D = Inl Unhashable"
  by (simp add: check_plugin_def)

lemma update_fresh: "k \<notin> fst ` set al \<Longrightarrow> AList.update k v al = al @ [(k, v)]"
  by (induction al) auto

lemma passes_checks_set_kwargs: "passes_checks (set_kwargs m) = passes_checks m"
  by (simp add: passes_checks_def set_kwargs_def hasattr_def getattr_default_def)

text \<open>
  C9. Registering a plugin whose name is already a key of the table of its kind (build,
  routine or model) raises the \<^verbatim>\<open>KeyError\<close> of line 35, and the registry at that moment is
  the registry before the call: no table has changed, so the failure touches nothing but
  this registration.
\<close>

theorem duplicate_name_rejected:
  "(getattr p ''plugin_name'' = Some name \<and> name \<in> fst ` set (BUILD_PLUGINS reg) \<longrightarrow>
      register_build ps p reg = Raised (AlreadyRegistered ''build'' name) reg) \<and>
   (getattr p ''plugin_name'' = Some name \<and> name \<in> fst ` set (ROUTINE_PLUGINS reg) \<longrightarrow>
      register_routine ps p reg = Raised (AlreadyRegistered ''routine'' name) reg) \<and>
   (getattr m ''plugin_name'' = Some name \<and> name \<in> fst ` set (MODEL_PLUGINS reg) \<longrightarrow>
      register_model ps m reg = Raised (AlreadyRegistered ''model'' name) reg) \<and>
   exc_class (AlreadyRegistered t name) = KeyError"
  by (simp add: register_build_def register_routine_def register_model_def
      check_plugin_duplicate getattr_set_kwargs)

theorem duplicate_name_rejected_witness:
  "register_build example_parsing gan_build gan_registry =
     Raised (AlreadyRegistered ''build'' (PyStr ''gan'')) gan_registry \<and>
   register_routine example_parsing gan_build gan_registry =
     Raised (AlreadyRegistered ''routine'' (PyStr ''gan'')) gan_registry \<and>
   register_model example_parsing gan_model gan_registry =
     Raised (AlreadyRegistered ''model'' (PyStr ''gan'')) gan_registry"
  using duplicate_name_rejected [of gan_build "PyStr ''gan''" gan_registry example_parsing gan_model]
  by (simp add: gan_build_def gan_model_def gan_registry_def getattr_def)

text \<open>
  C10. A plugin whose \<^verbatim>\<open>plugin_name\<close> is None, where None is not yet a key of the table of
  its kind, and which passes the protected-attribute and the required-attribute checks, is
  not rejected for its missing name: the exception of line 33 is never raised. A model is
  stored under the key None. A build or a routine is stored under the key None as well;
  the only failure left is the \<^verbatim>\<open>AttributeError\<close> of reading an entry point (\<^verbatim>\<open>build\<close>,
  \<^verbatim>\<open>run\<close>) that the plugin does not have.
\<close>

theorem unnamed_plugin_registered:
  "(getattr p ''plugin_name'' = Some PyNone \<and> PyNone \<notin> fst ` set (BUILD_PLUGINS reg) \<and>
    passes_checks p \<longrightarrow>
      register_build ps p reg =
        (case getattr p ''build'' of
           None \<Rightarrow> Raised (NoAttribute ''build'') reg
         | Some f \<Rightarrow>
             Done (reg\<lparr>BUILD_PLUGINS := BUILD_PLUGINS reg @
               [(PyNone, setattr (setattr p ''plugin_help'' (parse_docstring ps f))
                           ''plugin_kwargs'' (parse_kwargs ps f))]\<rparr>))) \<and>
   (getattr p ''plugin_name'' = Some PyNone \<and> PyNone \<notin> fst ` set (ROUTINE_PLUGINS reg) \<and>
    passes_checks p \<longrightarrow>
      register_routine ps p reg =
        (case getattr p ''run'' of
           None \<Rightarrow> Raised (NoAttribute ''run'') reg
         | Some f \<Rightarrow>
             Done (reg\<lparr>ROUTINE_PLUGINS := ROUTINE_PLUGINS reg @
               [(PyNone, setattr (setattr p ''plugin_help'' (parse_docstring ps f))
                           ''plugin_kwargs'' (parse_kwargs ps f))]\<rparr>))) \<and>
   (getattr m ''plugin_name'' = Some PyNone \<and> PyNone \<notin> fst ` set (MODEL_PLUGINS reg) \<and>
    passes_checks m \<longrightarrow>
      register_model ps m reg =
        Done (reg\<lparr>MODEL_PLUGINS := MODEL_PLUGINS reg @
          [(PyNone, setattr (setattr (set_kwargs m) ''plugin_help''
                               (fst (parse_header ps (set_kwargs m))))
                      ''plugin_description'' (snd (parse_header ps (set_kwargs m))))]\<rparr>))"
  by (auto simp: register_build_def register_routine_def register_model_def introspect_def
      check_plugin_unnamed getattr_setattr getattr_set_kwargs passes_checks_set_kwargs
      update_fresh Let_def split: option.splits prod.splits)

theorem unnamed_plugin_registered_witness:
  "map_of (BUILD_PLUGINS (final_state (register_build example_parsing unnamed_build empty_registry)))
     PyNone \<noteq> None \<and>
   map_of (ROUTINE_PLUGINS (final_state (register_routine example_parsing unnamed_routine empty_registry)))
     PyNone \<noteq> None \<and>
   map_of (MODEL_PLUGINS (final_state (register_model example_parsing unnamed_model empty_registry)))
     PyNone \<noteq> None"
  using unnamed_plugin_registered [of unnamed_build empty_registry example_parsing unnamed_model]
    unnamed_plugin_registered [of unnamed_routine empty_registry example_parsing unnamed_model]
  by (simp add: unnamed_build_def unnamed_routine_def unnamed_model_def empty_registry_def
      getattr_def passes_checks_def hasattr_def getattr_default_def)

section \<open>Properties of discovery\<close>

lemma find_models_loop_keeps_table:
  "MODEL_PLUGINS (final_state (find_models_loop ks reg)) = MODEL_PLUGINS reg \<and>
   warnings (final_state (find_models_loop ks reg)) = warnings reg"
  by (induction ks arbitrary: reg) (auto simp: Let_def split: option.splits)

text \<open>
  C8, at a failing input. Two compositions are registered, \<open>broken\<close> (which holds an
  object that is not a routine) before \<open>sound\<close>. \<^verbatim>\<open>find_models\<close> ends with the
  \<^verbatim>\<open>ValueError\<close> of the unguarded \<^verbatim>\<open>v.check()\<close> of line 513: \<open>broken\<close> is still in the
  table, no warning was logged and \<open>sound\<close> was never checked.
\<close>

theorem find_models_stops_at_failed_check:
  "find_models discovered = Raised CheckFailed (discovered\<lparr>checked := [PyStr ''broken'']\<rparr>)"
  by (simp add: find_models_def discovered_def broken_model_def sound_model_def check_def)

section \<open>Properties of the scheduler\<close>

lemma inherited_call_with_kwargs:
  "RoutinePluginBase_call cpu run self_kwargs ((k, v) # rest) ins = Inl (UnexpectedKeyword k)"
  by (simp add: RoutinePluginBase_call_def)

lemma inherited_call_returns_None:
  "RoutinePluginBase_call cpu run self_kwargs [] ins = Inr res \<Longrightarrow> returned res = None"
  by (auto simp: RoutinePluginBase_call_def perform_def split: option.splits sum.splits)

text \<open>
  C4, at a failing input. The routine \<open>encoder\<close> defines \<^verbatim>\<open>run\<close> and inherits
  \<^verbatim>\<open>__call__\<close>; its keyword table has the entry \<open>dim\<close>. The step ends with the
  \<^verbatim>\<open>TypeError\<close> of the call \<^verbatim>\<open>routine(**kwargs)\<close>, in evaluation and in training mode. With
  an empty keyword table the call goes through, \<^verbatim>\<open>perform\<close> drops what \<^verbatim>\<open>run\<close> returns, and
  the step ends at \<^verbatim>\<open>outputs.items()\<close> on \<^verbatim>\<open>None\<close>.
\<close>

theorem inherited_call_refuses_kwargs:
  "raised (run_procedure 0 False False encoder_model) = Some (UnexpectedKeyword ''dim'') \<and>
   raised (run_procedure 0 False True encoder_model) = Some (UnexpectedKeyword ''dim'') \<and>
   raised (run_procedure 0 False False (encoder_model\<lparr>kwargs_table := [(''encoder'', [])]\<rparr>))
     = Some (NoneHasNo ''items'')"
  by code_simp

text \<open>
  C7, at a failing input. In training mode the routine \<open>critic\<close> is scheduled twice. The
  step ends normally; the data source has been advanced twice and its current batch is
  the second one, but the pool entry \<open>data.x\<close> and the input wired from it in the second
  iteration are still those of the first batch.
\<close>

theorem refetch_does_not_reseed:
  "(let s = final_state (run_procedure 0 False True critic_model)
    in raised (run_procedure 0 False True critic_model) = None \<and>
       invoked (trace s) = [''critic'', ''critic''] \<and>
       position s = 2 \<and>
       batch s = [(''x'', \<lparr>payload = 2, requires_grad = False\<rparr>)] \<and>
       map_of (pool s) ''data.x'' = Some \<lparr>payload = 1, requires_grad = False\<rparr> \<and>
       map_option inputs (map_of (routines s) ''critic'')
         = Some [(''x'', One \<lparr>payload = 1, requires_grad = False\<rparr>), (''label'', Absent)])"
  by code_simp

subsection \<open>What each phase of an iteration leaves unchanged\<close>

lemma map_of_set_routine:
  "map_of (routines (set_routine key r s)) k = (if k = key then Some r else map_of (routines s) k)"
  by (simp add: set_routine_def update_conv')

lemma and_then_Done_iff: "and_then x f = Done s' \<longleftrightarrow> (\<exists>s1. x = Done s1 \<and> f s1 = Done s')"
  by (cases x) auto

lemma and_then_Exited_iff:
  "and_then x f = Exited s' \<longleftrightarrow> x = Exited s' \<or> (\<exists>s1. x = Done s1 \<and> f s1 = Exited s')"
  by (cases x) auto

lemma Done_final_state: "is_done x \<Longrightarrow> x = Done (final_state x)"
  by (cases x) auto

lemma Exited_final_state: "is_exited x \<Longrightarrow> x = Exited (final_state x)"
  by (cases x) auto

lemma keeps_and_then:
  "g (final_state x) = a \<Longrightarrow> (\<And>s1. g (final_state (f s1)) = g s1) \<Longrightarrow>
   g (final_state (and_then x f)) = a"
  by (cases x) auto

lemma invoked_append: "invoked (xs @ ys) = invoked xs @ invoked ys"
  by (induction xs rule: invoked.induct) auto

lemma printed_append: "printed (xs @ ys) = printed xs @ printed ys"
  by (induction xs rule: printed.induct) auto

lemma set_routine_fields:
  "pool (set_routine key r s) = pool s" "trace (set_routine key r s) = trace s"
  "outputs (set_routine key r s) = outputs s" "cur (set_routine key r s) = cur s"
  by (simp_all add: set_routine_def)

lemma emit_fields:
  "pool (emit ev s) = pool s" "trace (emit ev s) = trace s @ [ev]"
  "outputs (emit ev s) = outputs s" "routines (emit ev s) = routines s"
  "trained (emit ev s) k = trained s k" "cur (emit ev s) = cur s"
  "optimizers (emit ev s) = optimizers s"
  by (simp_all add: emit_def trained_def)

lemma refetch_fields:
  "pool (refetch u s) = pool s" "invoked (trace (refetch u s)) = invoked (trace s)"
  "printed (trace (refetch u s)) = printed (trace s)"
  "trained (refetch u s) k = trained s k" "routines (refetch u s) = routines s"
  by (simp_all add: refetch_def data_next_def emit_def invoked_append printed_append trained_def)

lemma bind_routine_fields:
  "pool (final_state (bind_routine key s)) = pool s"
  "trace (final_state (bind_routine key s)) = trace s"
  "trained (final_state (bind_routine key s)) k = trained s k"
  by (auto simp: bind_routine_def Let_def set_routine_fields map_of_set_routine reset_def
      trained_def split: option.splits)

lemma enable_loop_fields:
  "pool (final_state (enable_loop r ks s)) = pool s \<and>
   invoked (trace (final_state (enable_loop r ks s))) = invoked (trace s) \<and>
   printed (trace (final_state (enable_loop r ks s))) = printed (trace s) \<and>
   routines (final_state (enable_loop r ks s)) = routines s"
  by (induction ks arbitrary: s)
    (auto simp: Let_def emit_fields invoked_append printed_append optimizer_lookup_def
      split: sum.splits send.splits)

lemma enable_grad_fields:
  "pool (final_state (enable_grad train key s)) = pool s"
  "invoked (trace (final_state (enable_grad train key s))) = invoked (trace s)"
  "printed (trace (final_state (enable_grad train key s))) = printed (trace s)"
  "trained (final_state (enable_grad train key s)) k = trained s k"
  by (auto simp: enable_grad_def with_routine_def enable_loop_fields trained_def
      split: option.splits)

lemma wire_inputs_fields:
  "pool (final_state (wire_inputs key s)) = pool s"
  "trace (final_state (wire_inputs key s)) = trace s"
  "trained (final_state (wire_inputs key s)) k = trained s k"
  by (auto simp: wire_inputs_def with_routine_def set_routine_fields map_of_set_routine
      trained_def split: option.splits prod.splits)

lemma invoke_fields:
  "pool (final_state (invoke key s)) = pool s"
  "printed (trace (final_state (invoke key s))) = printed (trace s)"
  "trained (final_state (invoke key s)) k = trained s k"
  by (auto simp: invoke_def with_routine_def Let_def set_routine_fields map_of_set_routine
      emit_def printed_append trained_def split: option.splits sum.splits)

lemma invoke_Done:
  "invoke key s = Done s' \<Longrightarrow>
     invoked (trace s') = invoked (trace s) @ [key] \<and>
     (\<exists>r res. map_of (routines s) key = Some r \<and> call r (kwargs s) (inputs r) = Inr res \<and>
        outputs s' = returned res)"
  by (auto simp: invoke_def with_routine_def Let_def set_routine_fields emit_def invoked_append
      set_routine_def split: option.splits sum.splits)

lemma backprop_loop_fields:
  "pool (final_state (backprop_loop r ls s)) = pool s \<and>
   outputs (final_state (backprop_loop r ls s)) = outputs s \<and>
   invoked (trace (final_state (backprop_loop r ls s))) = invoked (trace s) \<and>
   printed (trace (final_state (backprop_loop r ls s))) = printed (trace s) \<and>
   routines (final_state (backprop_loop r ls s)) = routines s"
  by (induction r ls s rule: backprop_loop.induct)
    (auto simp: Let_def emit_fields invoked_append printed_append optimizer_lookup_def
      split: sum.splits send.splits option.splits)

lemma backprop_fields:
  "pool (final_state (backprop train key s)) = pool s"
  "outputs (final_state (backprop train key s)) = outputs s"
  "invoked (trace (final_state (backprop train key s))) = invoked (trace s)"
  "printed (trace (final_state (backprop train key s))) = printed (trace s)"
  "routines (final_state (backprop train key s)) = routines s"
  unfolding backprop_def
  by (rule keeps_and_then;
      auto simp: with_routine_def backprop_loop_fields split: option.splits)+

lemma backprop_trained: "trained (final_state (backprop train key s)) k = trained s k"
  by (simp add: trained_def backprop_fields)

lemma emit_loop_Done:
  "emit_loop key outs s = Done s' \<Longrightarrow>
     s' = s\<lparr>pool := pool s @ map (\<lambda>(k, v). (key @ ''.'' @ k, detach v)) outs\<rparr>"
proof (induction outs arbitrary: s)
  case Nil
  then show ?case by simp
next
  case (Cons kv outs)
  obtain k v where kv: "kv = (k, v)" by (cases kv)
  from Cons.prems kv have fresh: "key @ ''.'' @ k \<notin> fst ` set (pool s)"
    by (auto simp: Let_def split: if_splits)
  with Cons.prems kv have
    "emit_loop key outs (s\<lparr>pool := pool s @ [(key @ ''.'' @ k, detach v)]\<rparr>) = Done s'"
    by (simp add: Let_def update_fresh)
  from Cons.IH [OF this] kv show ?case by simp
qed

lemma emit_loop_collision:
  "\<exists>(k, v)\<in>set outs. key @ ''.'' @ k \<in> fst ` set (pool s) \<Longrightarrow>
   \<exists>k' s'. emit_loop key outs s = Raised (AlreadyInInputs k') s' \<and>
     k' \<in> (\<lambda>(k, v). key @ ''.'' @ k) ` set outs"
proof (induction outs arbitrary: s)
  case Nil
  then show ?case by simp
next
  case (Cons kv outs)
  obtain k v where kv: "kv = (k, v)" by (cases kv)
  show ?case
  proof (cases "key @ ''.'' @ k \<in> fst ` set (pool s)")
    case True
    with kv show ?thesis by (auto simp: Let_def)
  next
    case False
    let ?s1 = "s\<lparr>pool := AList.update (key @ ''.'' @ k) (detach v) (pool s)\<rparr>"
    from Cons.prems kv False
    have "\<exists>(k, v)\<in>set outs. key @ ''.'' @ k \<in> fst ` set (pool ?s1)"
      by (auto simp: dom_update)
    from Cons.IH [OF this] kv False show ?thesis by (auto simp: Let_def)
  qed
qed

lemma emit_loop_fields:
  "trace (final_state (emit_loop key outs s)) = trace s \<and>
   outputs (final_state (emit_loop key outs s)) = outputs s \<and>
   routines (final_state (emit_loop key outs s)) = routines s"
  by (induction outs arbitrary: s) (auto simp: Let_def)

lemma emit_outputs_fields:
  "trace (final_state (emit_outputs key update u s)) = trace s"
  "outputs (final_state (emit_outputs key update u s)) = outputs s"
  "routines (final_state (emit_outputs key update u s)) = routines s"
  "trained (final_state (emit_outputs key update u s)) k = trained s k"
  by (auto simp: emit_outputs_def emit_loop_fields trained_def split: option.splits)

lemma emit_outputs_skip: "int u \<noteq> update - 1 \<Longrightarrow> emit_outputs key update u s = Done s"
  by (simp add: emit_outputs_def)

lemma record_trained_fields:
  "pool (final_state (record_trained key s)) = pool s"
  "trace (final_state (record_trained key s)) = trace s"
  "outputs (final_state (record_trained key s)) = outputs s"
  by (auto simp: record_trained_def with_routine_def set_routine_fields split: option.splits)

lemma anomaly_check_fields:
  "pool (final_state (anomaly_check q key s)) = pool s"
  "outputs (final_state (anomaly_check q key s)) = outputs s"
  "invoked (trace (final_state (anomaly_check q key s))) = invoked (trace s)"
  "routines (final_state (anomaly_check q key s)) = routines s"
  "trained (final_state (anomaly_check q key s)) k = trained s k"
  by (auto simp: anomaly_check_def with_routine_def Let_def emit_def invoked_append trained_def
      split: option.splits)

lemma bind_routine_Done:
  "bind_routine key s = Done s1 \<Longrightarrow>
     \<exists>r kw. map_of (routines s) key = Some r \<and> map_of (kwargs_table s) key = Some kw \<and>
       s1 = set_routine key (reset r) (s\<lparr>cur := Some key, kwargs := kw\<rparr>)"
  by (auto simp: bind_routine_def Let_def split: option.splits)

lemma enable_loop_kwargs: "kwargs (final_state (enable_loop r ks s)) = kwargs s"
  by (induction ks arbitrary: s)
    (auto simp: Let_def emit_def optimizer_lookup_def split: sum.splits send.splits)

lemma enable_loop_Done:
  "enable_loop r ks s = Done s' \<Longrightarrow>
     routines s' = routines s \<and> kwargs s' = kwargs s \<and> pool s' = pool s"
  using enable_loop_fields [of r ks s] enable_loop_kwargs [of r ks s] by simp

lemma enable_grad_Done:
  "enable_grad train key s = Done s' \<Longrightarrow>
     routines s' = routines s \<and> kwargs s' = kwargs s \<and> pool s' = pool s"
  by (auto simp: enable_grad_def with_routine_def split: option.splits if_splits
      dest: enable_loop_Done)

lemma refetch_tables:
  "routines (refetch u s) = routines s" "kwargs_table (refetch u s) = kwargs_table s"
  by (simp_all add: refetch_def data_next_def emit_def)

lemma wire_inputs_Done:
  "wire_inputs key s = Done s' \<Longrightarrow>
     \<exists>r ins. map_of (routines s) key = Some r \<and> s' = set_routine key (r\<lparr>inputs := ins\<rparr>) s"
  by (auto simp: wire_inputs_def with_routine_def split: option.splits prod.splits)

lemma invoke_call:
  assumes "bind_routine key (refetch u s) = Done s1" "enable_grad train key s1 = Done s2"
    "wire_inputs key s2 = Done s3" "invoke key s3 = Done s4"
  shows "\<exists>r kw ins res. map_of (routines s) key = Some r \<and> map_of (kwargs_table s) key = Some kw \<and>
           call r kw ins = Inr res \<and> outputs s4 = returned res"
proof -
  from bind_routine_Done [OF assms(1)] obtain r kw where b:
    "map_of (routines s) key = Some r" "map_of (kwargs_table s) key = Some kw"
    "s1 = set_routine key (reset r) ((refetch u s)\<lparr>cur := Some key, kwargs := kw\<rparr>)"
    unfolding refetch_tables by blast
  from enable_grad_Done [OF assms(2)] b(3) have s2:
    "map_of (routines s2) key = Some (reset r)" "kwargs s2 = kw"
    by (simp_all add: set_routine_def update_conv')
  from wire_inputs_Done [OF assms(3)] s2 obtain ins where s3:
    "map_of (routines s3) key = Some ((reset r)\<lparr>inputs := ins\<rparr>)" "kwargs s3 = kw"
    by (auto simp: set_routine_def update_conv')
  from invoke_Done [OF assms(4)] s3 have
    "\<exists>res. call r kw ins = Inr res \<and> outputs s4 = returned res"
    by (auto simp: reset_def)
  with b show ?thesis by blast
qed

subsection \<open>Input wiring\<close>

lemma those_map_None:
  "those (map f ks) = None \<longleftrightarrow> (\<exists>k\<in>set ks. f k = None)"
  by (induction ks) (auto split: option.splits)

lemma those_map_Some:
  "\<forall>k\<in>set ks. f k \<noteq> None \<Longrightarrow> those (map f ks) = Some (map (\<lambda>k. the (f k)) ks)"
  by (induction ks) (auto split: option.splits)

lemma resolve_None:
  "resolve p (Key k) = None \<longleftrightarrow> map_of p k = None"
  "resolve p (KeyList ks) = None \<longleftrightarrow> (\<exists>k\<in>set ks. map_of p k = None)"
  "resolve p (KeyTuple ks) = None \<longleftrightarrow> (\<exists>k\<in>set ks. map_of p k = None)"
  by (simp_all add: resolve_def those_map_None)

lemma resolve_list:
  "\<forall>k\<in>set ks. map_of p k \<noteq> None \<Longrightarrow>
     resolve p (KeyList ks) = Some (Many (map (\<lambda>k. the (map_of p k)) ks))"
  "\<forall>k\<in>set ks. map_of p k \<noteq> None \<Longrightarrow>
     resolve p (KeyTuple ks) = Some (Many (map (\<lambda>k. the (map_of p k)) ks))"
  by (simp_all add: resolve_def those_map_Some)

lemma wire_required_fails:
  "\<exists>receive\<in>set rs. resolve p (names_get ns receive) = None \<Longrightarrow>
   \<exists>target ins'. wire_required p ns rs ins = (Some (NotInInputs target (map fst p)), ins') \<and>
     target \<in> names_get ns ` set rs \<and> resolve p target = None"
proof (induction rs arbitrary: ins)
  case Nil
  then show ?case by simp
next
  case (Cons r rs)
  show ?case
  proof (cases "resolve p (names_get ns r)")
    case None
    then show ?thesis by auto
  next
    case (Some w)
    with Cons.prems have "\<exists>receive\<in>set rs. resolve p (names_get ns receive) = None" by auto
    from Cons.IH [OF this, of "AList.update r w ins"] Some show ?thesis by auto
  qed
qed

lemma wire_required_passes:
  "\<forall>receive\<in>set rs. resolve p (names_get ns receive) \<noteq> None \<Longrightarrow>
   \<exists>ins'. wire_required p ns rs ins = (None, ins') \<and>
     (\<forall>x. map_of ins' x = (if x \<in> set rs then resolve p (names_get ns x) else map_of ins x))"
proof (induction rs arbitrary: ins)
  case Nil
  then show ?case by simp
next
  case (Cons r rs)
  then obtain w where w: "resolve p (names_get ns r) = Some w" by auto
  from Cons.prems have "\<forall>receive\<in>set rs. resolve p (names_get ns receive) \<noteq> None" by simp
  from Cons.IH [OF this, of "AList.update r w ins"] obtain ins' where
    "wire_required p ns rs (AList.update r w ins) = (None, ins')"
    "\<forall>x. map_of ins' x =
       (if x \<in> set rs then resolve p (names_get ns x) else map_of (AList.update r w ins) x)"
    by blast
  with w show ?case by (auto simp: update_conv')
qed

lemma wire_optional_binds:
  "map_of (wire_optional p ns rs ins) x =
     (if x \<in> set rs
      then Some (case resolve p (names_get ns x) of None \<Rightarrow> Absent | Some w \<Rightarrow> w)
      else map_of ins x)"
  by (induction rs arbitrary: ins) (auto simp: update_conv' split: option.splits)

lemma wire_inputs_missing:
  assumes "map_of (routines s) key = Some r"
    and "\<exists>receive\<in>set (plugin_inputs r). resolve (pool s) (names_get (names r) receive) = None"
  shows "\<exists>target s'. wire_inputs key s = Raised (NotInInputs target (map fst (pool s))) s' \<and>
           target \<in> names_get (names r) ` set (plugin_inputs r) \<and> resolve (pool s) target = None"
  using wire_required_fails [OF assms(2), of "inputs r"] assms(1)
  by (auto simp: wire_inputs_def with_routine_def)

lemma missing_input_ends_iteration:
  assumes "map_of (routines s) key = Some r" "map_of (kwargs_table s) key = Some kw"
    and "\<exists>receive\<in>set (plugin_inputs r). resolve (pool s) (names_get (names r) receive) = None"
  shows "\<exists>target s'. run_iteration False q key update u s =
            Raised (NotInInputs target (map fst (pool s))) s' \<and>
          target \<in> names_get (names r) ` set (plugin_inputs r) \<and>
          resolve (pool s) target = None \<and> invoked (trace s') = invoked (trace s)"
proof -
  let ?s0 = "refetch u s"
  let ?s1 = "set_routine key (reset r) (?s0\<lparr>cur := Some key, kwargs := kw\<rparr>)"
  have b: "bind_routine key ?s0 = Done ?s1"
    using assms(1,2) by (simp add: bind_routine_def refetch_tables)
  have e: "enable_grad False key ?s1 = Done ?s1"
    by (simp add: enable_grad_def)
  have r1: "map_of (routines ?s1) key = Some (reset r)"
    by (simp add: map_of_set_routine)
  have p1: "pool ?s1 = pool s" "invoked (trace ?s1) = invoked (trace s)"
    by (simp_all add: set_routine_def refetch_fields)
  from assms(3) p1 have "\<exists>receive\<in>set (plugin_inputs (reset r)).
      resolve (pool ?s1) (names_get (names (reset r)) receive) = None"
    by (simp add: reset_def)
  from wire_inputs_missing [OF r1 this] obtain target s' where w:
    "wire_inputs key ?s1 = Raised (NotInInputs target (map fst (pool ?s1))) s'"
    "target \<in> names_get (names (reset r)) ` set (plugin_inputs (reset r))"
    "resolve (pool ?s1) target = None"
    by blast
  from w(1) have "trace s' = trace ?s1"
    using wire_inputs_fields(2) [of key ?s1] by simp
  moreover have "run_iteration False q key update u s =
      Raised (NotInInputs target (map fst (pool ?s1))) s'"
    by (simp add: run_iteration_def b e w(1))
  ultimately show ?thesis using w(2,3) p1 by (auto simp: reset_def)
qed

text \<open>
  C3. During the input wiring of a routine (the routine stored under \<open>key\<close>): if a
  required input cannot be resolved in the pool, the wiring raises the \<^verbatim>\<open>KeyError\<close> of
  line 370, which carries the unresolved requirement and the keys available in the pool,
  and in evaluation mode the iteration ends with that error before the routine is invoked;
  a single-key requirement is unresolved exactly when its key is absent, a list or tuple
  requirement exactly when one of its keys is. If every required input resolves, the
  wiring cannot fail: each required input is bound to what it resolves to, a list
  requirement to the sequence of the pool values in the order of its keys, and each
  optional input is bound to what it resolves to, or to the absent marker if it does not
  resolve.
\<close>

theorem input_wiring:
  assumes "map_of (routines s) key = Some r"
  shows "((\<exists>receive\<in>set (plugin_inputs r). resolve (pool s) (names_get (names r) receive) = None) \<longrightarrow>
           (\<exists>target s'. wire_inputs key s = Raised (NotInInputs target (map fst (pool s))) s' \<and>
              target \<in> names_get (names r) ` set (plugin_inputs r) \<and>
              resolve (pool s) target = None \<and>
              exc_class (NotInInputs target (map fst (pool s))) = KeyError))
       \<and> ((\<exists>receive\<in>set (plugin_inputs r). resolve (pool s) (names_get (names r) receive) = None) \<and>
           map_of (kwargs_table s) key = Some kw \<longrightarrow>
           (\<exists>target s'. run_iteration False q key update u s =
                Raised (NotInInputs target (map fst (pool s))) s' \<and>
              target \<in> names_get (names r) ` set (plugin_inputs r) \<and>
              resolve (pool s) target = None \<and> invoked (trace s') = invoked (trace s)))
       \<and> ((\<forall>receive\<in>set (plugin_inputs r). resolve (pool s) (names_get (names r) receive) \<noteq> None) \<longrightarrow>
           (\<exists>s' r'. wire_inputs key s = Done s' \<and> map_of (routines s') key = Some r' \<and>
              (\<forall>receive\<in>set (plugin_optional_inputs r).
                 map_of (inputs r') receive =
                   Some (case resolve (pool s) (names_get (names r) receive) of
                           None \<Rightarrow> Absent | Some w \<Rightarrow> w)) \<and>
              (\<forall>receive\<in>set (plugin_inputs r).
                 map_of (inputs r') receive = resolve (pool s) (names_get (names r) receive))))
       \<and> (resolve (pool s) (Key k) = None \<longleftrightarrow> k \<notin> fst ` set (pool s))
       \<and> (resolve (pool s) (KeyList ks) = None \<longleftrightarrow> (\<exists>k\<in>set ks. k \<notin> fst ` set (pool s)))
       \<and> (resolve (pool s) (KeyTuple ks) = None \<longleftrightarrow> (\<exists>k\<in>set ks. k \<notin> fst ` set (pool s)))
       \<and> ((\<forall>k\<in>set ks. k \<in> fst ` set (pool s)) \<longrightarrow>
            resolve (pool s) (KeyList ks) = Some (Many (map (\<lambda>k. the (map_of (pool s) k)) ks)) \<and>
            resolve (pool s) (KeyTuple ks) = Some (Many (map (\<lambda>k. the (map_of (pool s) k)) ks)))"
proof (intro conjI impI)
  assume "\<exists>receive\<in>set (plugin_inputs r). resolve (pool s) (names_get (names r) receive) = None"
  from wire_inputs_missing [OF assms this]
  show "\<exists>target s'. wire_inputs key s = Raised (NotInInputs target (map fst (pool s))) s' \<and>
          target \<in> names_get (names r) ` set (plugin_inputs r) \<and>
          resolve (pool s) target = None \<and>
          exc_class (NotInInputs target (map fst (pool s))) = KeyError"
    by auto
next
  assume a: "(\<exists>receive\<in>set (plugin_inputs r). resolve (pool s) (names_get (names r) receive) = None) \<and>
    map_of (kwargs_table s) key = Some kw"
  from missing_input_ends_iteration [OF assms a [THEN conjunct2] a [THEN conjunct1]]
  show "\<exists>target s'. run_iteration False q key update u s =
          Raised (NotInInputs target (map fst (pool s))) s' \<and>
        target \<in> names_get (names r) ` set (plugin_inputs r) \<and>
        resolve (pool s) target = None \<and> invoked (trace s') = invoked (trace s)" .
next
  assume ok: "\<forall>receive\<in>set (plugin_inputs r). resolve (pool s) (names_get (names r) receive) \<noteq> None"
  from wire_required_passes [OF this, of "inputs r"] obtain ins' where
    ins': "wire_required (pool s) (names r) (plugin_inputs r) (inputs r) = (None, ins')"
      "\<forall>x. map_of ins' x = (if x \<in> set (plugin_inputs r)
          then resolve (pool s) (names_get (names r) x) else map_of (inputs r) x)"
    by blast
  let ?r' = "r\<lparr>inputs := wire_optional (pool s) (names r) (plugin_optional_inputs r) ins'\<rparr>"
  have "wire_inputs key s = Done (set_routine key ?r' s)"
    using assms ins'(1) by (simp add: wire_inputs_def with_routine_def)
  moreover have "map_of (routines (set_routine key ?r' s)) key = Some ?r'"
    by (simp add: map_of_set_routine)
  moreover have "\<forall>receive\<in>set (plugin_optional_inputs r).
      map_of (inputs ?r') receive =
        Some (case resolve (pool s) (names_get (names r) receive) of None \<Rightarrow> Absent | Some w \<Rightarrow> w)"
    by (simp add: wire_optional_binds)
  moreover have "\<forall>receive\<in>set (plugin_inputs r).
      map_of (inputs ?r') receive = resolve (pool s) (names_get (names r) receive)"
    using ok ins'(2) by (auto simp: wire_optional_binds)
  ultimately show "\<exists>s' r'. wire_inputs key s = Done s' \<and> map_of (routines s') key = Some r' \<and>
      (\<forall>receive\<in>set (plugin_optional_inputs r).
         map_of (inputs r') receive =
           Some (case resolve (pool s) (names_get (names r) receive) of
                   None \<Rightarrow> Absent | Some w \<Rightarrow> w)) \<and>
      (\<forall>receive\<in>set (plugin_inputs r).
         map_of (inputs r') receive = resolve (pool s) (names_get (names r) receive))"
    by blast
qed (auto simp: resolve_None resolve_list map_of_eq_None_iff)

theorem input_wiring_witness:
  "(\<exists>s'. wire_inputs ''viewer'' viewer_model = Raised (NotInInputs (Key ''image'') [''data.x'']) s') \<and>
   (\<exists>s' r'. wire_inputs ''critic'' seeded = Done s' \<and> map_of (routines s') ''critic'' = Some r' \<and>
      map_of (inputs r') ''x'' = Some (One \<lparr>payload = 1, requires_grad = False\<rparr>) \<and>
      map_of (inputs r') ''label'' = Some Absent)"
proof -
  have a: "map_of (routines viewer_model) ''viewer'' = Some viewer"
    by (simp add: viewer_model_def)
  have va: "plugin_inputs viewer = [''image'']" "names_get (names viewer) ''image'' = Key ''image''"
    "map fst (pool viewer_model) = [''data.x'']"
    by (simp_all add: viewer_model_def viewer_def seeded_def first_batch_def names_get_def)
  have vb: "resolve (pool viewer_model) (Key ''image'') = None"
    by (simp add: viewer_model_def seeded_def first_batch_def resolve_def)
  have b: "\<exists>receive\<in>set (plugin_inputs viewer).
      resolve (pool viewer_model) (names_get (names viewer) receive) = None"
    by (simp add: va vb)
  have c: "map_of (routines seeded) ''critic'' = Some critic"
    by (simp add: seeded_def critic_model_def)
  have ca: "plugin_inputs critic = [''x'']" "plugin_optional_inputs critic = [''label'']"
    "names_get (names critic) ''x'' = Key ''data.x''"
    "names_get (names critic) ''label'' = Key ''label''"
    by (simp_all add: critic_def names_get_def)
  have cb: "resolve (pool seeded) (Key ''data.x'') = Some (One \<lparr>payload = 1, requires_grad = False\<rparr>)"
    "resolve (pool seeded) (Key ''label'') = None"
    by (simp_all add: seeded_def first_batch_def resolve_def)
  have d: "\<forall>receive\<in>set (plugin_inputs critic).
      resolve (pool seeded) (names_get (names critic) receive) \<noteq> None"
    by (simp add: ca cb)
  from input_wiring [OF a, THEN conjunct1, THEN mp, OF b] have
    "\<exists>target s'. wire_inputs ''viewer'' viewer_model =
        Raised (NotInInputs target (map fst (pool viewer_model))) s' \<and>
        target \<in> names_get (names viewer) ` set (plugin_inputs viewer)"
    by fast
  then have first: "\<exists>s'. wire_inputs ''viewer'' viewer_model =
      Raised (NotInInputs (Key ''image'') [''data.x'']) s'"
    by (simp add: va)
  from input_wiring [OF c, THEN conjunct2, THEN conjunct2, THEN conjunct1, THEN mp, OF d] obtain s' r' where w:
    "wire_inputs ''critic'' seeded = Done s'" "map_of (routines s') ''critic'' = Some r'"
    "\<forall>receive\<in>set (plugin_optional_inputs critic). map_of (inputs r') receive =
       Some (case resolve (pool seeded) (names_get (names critic) receive) of
               None \<Rightarrow> Absent | Some w \<Rightarrow> w)"
    "\<forall>receive\<in>set (plugin_inputs critic).
       map_of (inputs r') receive = resolve (pool seeded) (names_get (names critic) receive)"
    by blast
  from w(3) have "map_of (inputs r') ''label'' = Some Absent"
    by (simp add: ca cb)
  moreover from w(4) have "map_of (inputs r') ''x'' = Some (One \<lparr>payload = 1, requires_grad = False\<rparr>)"
    by (simp add: ca cb)
  ultimately show ?thesis using first w(1,2) by blast
qed

subsection \<open>Outputs and the pool\<close>

lemma detach_fields: "requires_grad (detach v) = False" "payload (detach v) = payload v"
  by (simp_all add: detach_def)

lemma run_iteration_pool_not_final:
  "int u \<noteq> update - 1 \<Longrightarrow> pool (final_state (run_iteration train q key update u s)) = pool s"
  unfolding run_iteration_def
  by (intro keeps_and_then [where g = pool])
    (simp_all add: bind_routine_fields refetch_fields enable_grad_fields wire_inputs_fields
      invoke_fields backprop_fields emit_outputs_skip record_trained_fields anomaly_check_fields)

lemma run_iteration_pool_final:
  assumes "run_iteration train q key update u s = Done s'" and "int u = update - 1"
  shows "\<exists>outs. outputs s' = Some outs \<and>
           pool s' = pool s @ map (\<lambda>(k, v). (key @ ''.'' @ k, detach v)) outs"
proof -
  from assms(1) obtain s1 s2 s3 s4 s5 s6 s7 where steps:
    "bind_routine key (refetch u s) = Done s1" "enable_grad train key s1 = Done s2"
    "wire_inputs key s2 = Done s3" "invoke key s3 = Done s4" "backprop train key s4 = Done s5"
    "emit_outputs key update u s5 = Done s6" "record_trained key s6 = Done s7"
    "anomaly_check q key s7 = Done s'"
    unfolding run_iteration_def and_then_Done_iff by blast
  have p5: "pool s5 = pool s"
    using bind_routine_fields(1) [of key "refetch u s"] enable_grad_fields(1) [of train key s1]
      wire_inputs_fields(1) [of key s2] invoke_fields(1) [of key s3]
      backprop_fields(1) [of train key s4] steps
    by (simp add: refetch_fields)
  from steps(6) assms(2) obtain outs where outs: "outputs s5 = Some outs"
    "emit_loop key outs s5 = Done s6"
    by (auto simp: emit_outputs_def split: option.splits)
  from emit_loop_Done [OF outs(2)] have s6: "pool s6 = pool s5 @ map (\<lambda>(k, v). (key @ ''.'' @ k, detach v)) outs"
    "outputs s6 = outputs s5" by simp_all
  have "pool s' = pool s6" "outputs s' = outputs s6"
    using record_trained_fields(1,3) [of key s6] anomaly_check_fields(1,2) [of q key s7] steps
    by simp_all
  with s6 p5 outs(1) show ?thesis by simp
qed

lemma run_iteration_outputs:
  assumes "run_iteration train q key update u s = Done s'" and "int u = update - 1"
  shows "\<exists>r kw ins res outs. map_of (routines s) key = Some r \<and>
           map_of (kwargs_table s) key = Some kw \<and> call r kw ins = Inr res \<and>
           returned res = Some outs \<and>
           pool s' = pool s @ map (\<lambda>(k, v). (key @ ''.'' @ k, detach v)) outs"
proof -
  from assms(1) obtain s1 s2 s3 s4 s5 s6 s7 where steps:
    "bind_routine key (refetch u s) = Done s1" "enable_grad train key s1 = Done s2"
    "wire_inputs key s2 = Done s3" "invoke key s3 = Done s4" "backprop train key s4 = Done s5"
    "emit_outputs key update u s5 = Done s6" "record_trained key s6 = Done s7"
    "anomaly_check q key s7 = Done s'"
    unfolding run_iteration_def and_then_Done_iff by blast
  from invoke_call [OF steps(1-4)] obtain r kw ins res where c:
    "map_of (routines s) key = Some r" "map_of (kwargs_table s) key = Some kw"
    "call r kw ins = Inr res" "outputs s4 = returned res"
    by blast
  have "outputs s' = outputs s4"
    using backprop_fields(2) [of train key s4] emit_outputs_fields(2) [of key update u s5]
      record_trained_fields(3) [of key s6] anomaly_check_fields(2) [of q key s7] steps
    by simp
  with run_iteration_pool_final [OF assms] c show ?thesis by auto
qed

text \<open>
  C2. An iteration that is not the final one of its routine (\<open>u \<noteq> update - 1\<close>) leaves the
  pool as it was, however it ends. A final iteration that ends normally has appended to the
  pool, for each named output that the call of the routine (with the keyword table stored
  for it) returned, in order, the detached output under the key \<open>key.name\<close>, and nothing
  else. If the key of an output is already in the pool, the copying raises the \<^verbatim>\<open>KeyError\<close>
  of line 406. A detached value has gradient tracking off and the same content.
\<close>

theorem outputs_emitted_on_final_iteration:
  "(int u \<noteq> update - 1 \<longrightarrow>
      pool (final_state (run_iteration train q key update u s)) = pool s) \<and>
   (int u = update - 1 \<and> run_iteration train q key update u s = Done s' \<longrightarrow>
      (\<exists>r kw ins res outs. map_of (routines s) key = Some r \<and>
         map_of (kwargs_table s) key = Some kw \<and> call r kw ins = Inr res \<and>
         returned res = Some outs \<and>
         pool s' = pool s @ map (\<lambda>(k, v). (key @ ''.'' @ k, detach v)) outs)) \<and>
   (int u = update - 1 \<and> outputs s = Some outs \<and>
    (\<exists>(k, v)\<in>set outs. key @ ''.'' @ k \<in> fst ` set (pool s)) \<longrightarrow>
      (\<exists>k' s'. emit_outputs key update u s = Raised (AlreadyInInputs k') s' \<and>
         k' \<in> (\<lambda>(k, v). key @ ''.'' @ k) ` set outs \<and>
         exc_class (AlreadyInInputs k') = KeyError)) \<and>
   requires_grad (detach v) = False \<and> payload (detach v) = payload v"
proof (intro conjI impI)
  assume a: "int u = update - 1 \<and> outputs s = Some outs \<and>
    (\<exists>(k, v)\<in>set outs. key @ ''.'' @ k \<in> fst ` set (pool s))"
  then have "\<exists>(k, v)\<in>set outs. key @ ''.'' @ k \<in> fst ` set (pool s)" by simp
  from emit_loop_collision [OF this] a
  show "\<exists>k' s'. emit_outputs key update u s = Raised (AlreadyInInputs k') s' \<and>
         k' \<in> (\<lambda>(k, v). key @ ''.'' @ k) ` set outs \<and>
         exc_class (AlreadyInInputs k') = KeyError"
    by (auto simp: emit_outputs_def)
next
  assume a: "int u = update - 1 \<and> run_iteration train q key update u s = Done s'"
  from run_iteration_outputs [OF a [THEN conjunct2] a [THEN conjunct1]]
  show "\<exists>r kw ins res outs. map_of (routines s) key = Some r \<and>
         map_of (kwargs_table s) key = Some kw \<and> call r kw ins = Inr res \<and>
         returned res = Some outs \<and>
         pool s' = pool s @ map (\<lambda>(k, v). (key @ ''.'' @ k, detach v)) outs" .
qed (simp_all add: run_iteration_pool_not_final detach_fields)

theorem outputs_emitted_on_final_iteration_witness:
  "pool (final_state (run_iteration True False ''critic'' 2 0 seeded)) = first_batch \<and>
   pool (final_state (run_iteration True False ''critic'' 2 1 seeded)) =
     first_batch @ [(''critic.score'', \<lparr>payload = 7, requires_grad = False\<rparr>)] \<and>
   (\<exists>s'. emit_outputs ''critic'' 1 0 clashing = Raised (AlreadyInInputs ''critic.score'') s')"
proof -
  have d: "int 1 = 2 - 1 \<and> run_iteration True False ''critic'' 2 1 seeded =
      Done (final_state (run_iteration True False ''critic'' 2 1 seeded))"
    by (rule conjI, simp, rule Done_final_state, code_simp)
  have r: "map_of (routines seeded) ''critic'' = Some critic"
    by (simp add: seeded_def critic_model_def)
  have o: "\<And>kw ins res. call critic kw ins = Inr res \<Longrightarrow>
      returned res = Some [(''score'', \<lparr>payload = 7, requires_grad = True\<rparr>)]"
    by (auto simp: critic_def)
  have c: "int 0 = 1 - 1 \<and> outputs clashing = Some [(''score'', \<lparr>payload = 7, requires_grad = True\<rparr>)] \<and>
      (\<exists>(k, v)\<in>set [(''score'', \<lparr>payload = 7, requires_grad = True\<rparr>)].
          ''critic'' @ ''.'' @ k \<in> fst ` set (pool clashing))"
    by (simp add: clashing_def first_batch_def)
  have p: "pool seeded = first_batch"
    by (simp add: seeded_def)
  from outputs_emitted_on_final_iteration
    [of 0 2 True False "''critic''" seeded, THEN conjunct1]
  have one: "pool (final_state (run_iteration True False ''critic'' 2 0 seeded)) = first_batch"
    using p by simp
  from outputs_emitted_on_final_iteration
    [of 1 2 True False "''critic''" seeded "final_state (run_iteration True False ''critic'' 2 1 seeded)",
      THEN conjunct2, THEN conjunct1, THEN mp, OF d]
  obtain r' kw ins res outs where w: "map_of (routines seeded) ''critic'' = Some r'"
    "call r' kw ins = Inr res" "returned res = Some outs"
    "pool (final_state (run_iteration True False ''critic'' 2 1 seeded)) =
       pool seeded @ map (\<lambda>(k, v). (''critic'' @ ''.'' @ k, detach v)) outs"
    by blast
  from w(1) r have "r' = critic" by simp
  with w(2,3) o have "outs = [(''score'', \<lparr>payload = 7, requires_grad = True\<rparr>)]" by auto
  with w(4) p have two: "pool (final_state (run_iteration True False ''critic'' 2 1 seeded)) =
     first_batch @ [(''critic.score'', \<lparr>payload = 7, requires_grad = False\<rparr>)]"
    by (simp add: detach_def)
  from outputs_emitted_on_final_iteration
    [of 0 1 True False "''critic''" clashing _ "[(''score'', \<lparr>payload = 7, requires_grad = True\<rparr>)]",
      THEN conjunct2, THEN conjunct2, THEN conjunct1, THEN mp, OF c]
  have three: "\<exists>s'. emit_outputs ''critic'' 1 0 clashing = Raised (AlreadyInInputs ''critic.score'') s'"
    by auto
  from one two three show ?thesis by blast
qed

subsection \<open>Repeat counts\<close>

lemma run_iteration_invoked:
  assumes "run_iteration train q key update u s = Done s'"
  shows "invoked (trace s') = invoked (trace s) @ [key]"
proof -
  from assms obtain s1 s2 s3 s4 s5 s6 s7 where steps:
    "bind_routine key (refetch u s) = Done s1" "enable_grad train key s1 = Done s2"
    "wire_inputs key s2 = Done s3" "invoke key s3 = Done s4" "backprop train key s4 = Done s5"
    "emit_outputs key update u s5 = Done s6" "record_trained key s6 = Done s7"
    "anomaly_check q key s7 = Done s'"
    unfolding run_iteration_def and_then_Done_iff by blast
  have "invoked (trace s3) = invoked (trace s)"
    using bind_routine_fields(2) [of key "refetch u s"] enable_grad_fields(2) [of train key s1]
      wire_inputs_fields(2) [of key s2] steps
    by (simp add: refetch_fields)
  moreover have "invoked (trace s4) = invoked (trace s3) @ [key]"
    using invoke_Done [OF steps(4)] by simp
  moreover have "invoked (trace s') = invoked (trace s4)"
    using backprop_fields(3) [of train key s4] emit_outputs_fields(1) [of key update u s5]
      record_trained_fields(2) [of key s6] anomaly_check_fields(3) [of q key s7] steps
    by simp
  ultimately show ?thesis by simp
qed

lemma run_repeats_invoked:
  "run_repeats train q key update us s = Done s' \<Longrightarrow>
     invoked (trace s') = invoked (trace s) @ replicate (length us) key"
proof (induction us arbitrary: s)
  case Nil
  then show ?case by simp
next
  case (Cons u us)
  from Cons.prems obtain s1 where s1: "run_iteration train q key update u s = Done s1"
    "run_repeats train q key update us s1 = Done s'"
    by (auto simp: and_then_Done_iff)
  from run_iteration_invoked [OF s1(1)] Cons.IH [OF s1(2)] show ?case
    by (simp add: replicate_append_same)
qed

lemma update_results_fields:
  "trace (final_state (update_results rs s)) = trace s \<and>
   routines (final_state (update_results rs s)) = routines s \<and>
   pool (final_state (update_results rs s)) = pool s"
  by (induction rs s rule: update_results.induct) auto

lemma finish_pair_fields:
  "trace (final_state (finish_pair key s)) = trace s"
  "routines (final_state (finish_pair key s)) = routines s"
  "pool (final_state (finish_pair key s)) = pool s"
  unfolding finish_pair_def with_routine_def
  by (auto simp: update_results_fields split: option.splits
      intro!: keeps_and_then [where g = trace] keeps_and_then [where g = routines]
              keeps_and_then [where g = pool])

lemma run_pairs_invoked:
  "run_pairs train q pairs s = Done s' \<Longrightarrow>
     invoked (trace s') = invoked (trace s) @ scheduled train pairs"
proof (induction pairs arbitrary: s)
  case Nil
  then show ?case by (simp add: scheduled_def)
next
  case (Cons p pairs)
  obtain key update where p: "p = (key, update)" by (cases p)
  let ?n = "if \<not> train then 1 else update"
  from Cons.prems p obtain s1 s2 where steps:
    "run_repeats train q key ?n (py_range ?n) s = Done s1"
    "finish_pair key s1 = Done s2" "run_pairs train q pairs s2 = Done s'"
    by (auto simp: and_then_Done_iff Let_def)
  have "invoked (trace s1) = invoked (trace s) @ replicate (nat ?n) key"
    using run_repeats_invoked [OF steps(1)] by (simp add: py_range_def)
  moreover have "trace s2 = trace s1"
    using finish_pair_fields(1) [of key s1] steps(2) by simp
  ultimately show ?case
    using Cons.IH [OF steps(3)] p by (auto simp: scheduled_def)
qed

lemma scheduled_eval: "scheduled False pairs = map fst pairs"
  by (induction pairs) (auto simp: scheduled_def)

lemma holds_and_then:
  "P (g (final_state x)) \<Longrightarrow> (\<And>s1. g (final_state (f s1)) = g s1) \<Longrightarrow>
   P (g (final_state (and_then x f)))"
  by (cases x) auto

lemma invoke_invoked:
  "invoked (trace (final_state (invoke key s))) = invoked (trace s) \<or>
   invoked (trace (final_state (invoke key s))) = invoked (trace s) @ [key]"
  by (auto simp: invoke_def with_routine_def Let_def set_routine_fields emit_def invoked_append
      split: option.splits sum.splits)

lemma run_iteration_invoked_any:
  "invoked (trace (final_state (run_iteration train q key update u s))) = invoked (trace s) \<or>
   invoked (trace (final_state (run_iteration train q key update u s))) = invoked (trace s) @ [key]"
proof -
  let ?pre = "and_then (and_then (bind_routine key (refetch u s)) (enable_grad train key))
                (wire_inputs key)"
  let ?P = "\<lambda>l. l = invoked (trace s) \<or> l = invoked (trace s) @ [key]"
  have pre: "invoked (trace (final_state ?pre)) = invoked (trace s)"
    by (intro keeps_and_then [where g = "\<lambda>s. invoked (trace s)"])
       (simp_all add: bind_routine_fields refetch_fields enable_grad_fields wire_inputs_fields)
  have "?P (invoked (trace (final_state (and_then ?pre (invoke key)))))"
  proof (cases ?pre)
    case (Done s3)
    with pre invoke_invoked [of key s3] show ?thesis by auto
  qed (insert pre, auto)
  then have "?P (invoked (trace (final_state
      (and_then (and_then ?pre (invoke key)) (backprop train key)))))"
    by (rule holds_and_then [where g = "\<lambda>s. invoked (trace s)"]) (simp add: backprop_fields)
  then have "?P (invoked (trace (final_state
      (and_then (and_then (and_then ?pre (invoke key)) (backprop train key))
         (emit_outputs key update u)))))"
    by (rule holds_and_then [where g = "\<lambda>s. invoked (trace s)"])
       (simp add: emit_outputs_fields)
  then have "?P (invoked (trace (final_state
      (and_then (and_then (and_then (and_then ?pre (invoke key)) (backprop train key))
         (emit_outputs key update u)) (record_trained key)))))"
    by (rule holds_and_then [where g = "\<lambda>s. invoked (trace s)"])
       (simp add: record_trained_fields)
  then have "?P (invoked (trace (final_state
      (and_then (and_then (and_then (and_then (and_then ?pre (invoke key)) (backprop train key))
         (emit_outputs key update u)) (record_trained key)) (anomaly_check q key)))))"
    by (rule holds_and_then [where g = "\<lambda>s. invoked (trace s)"])
       (simp add: anomaly_check_fields)
  then show ?thesis
    unfolding run_iteration_def .
qed

lemma run_repeats_invoked_any:
  "\<exists>n\<le>length us. invoked (trace (final_state (run_repeats train q key update us s))) =
     invoked (trace s) @ replicate n key"
proof (induction us arbitrary: s)
  case Nil
  show ?case by simp
next
  case (Cons u us)
  show ?case
  proof (cases "run_iteration train q key update u s")
    case (Done s1)
    from run_iteration_invoked [OF Done] Cons.IH [of s1] Done
    obtain n where "n \<le> length us"
      "invoked (trace (final_state (run_repeats train q key update (u # us) s))) =
         invoked (trace s) @ replicate (Suc n) key"
      by (auto simp: replicate_append_same)
    then show ?thesis by (intro exI [of _ "Suc n"]) simp
  next
    case (Raised e s1)
    with run_iteration_invoked_any [of train q key update u s]
    have "invoked (trace (final_state (run_repeats train q key update (u # us) s))) =
            invoked (trace s) @ replicate 0 key \<or>
          invoked (trace (final_state (run_repeats train q key update (u # us) s))) =
            invoked (trace s) @ replicate 1 key"
      by simp
    then show ?thesis by (metis One_nat_def Suc_le_mono le0 length_Cons)
  next
    case (Exited s1)
    with run_iteration_invoked_any [of train q key update u s]
    have "invoked (trace (final_state (run_repeats train q key update (u # us) s))) =
            invoked (trace s) @ replicate 0 key \<or>
          invoked (trace (final_state (run_repeats train q key update (u # us) s))) =
            invoked (trace s) @ replicate 1 key"
      by simp
    then show ?thesis by (metis One_nat_def Suc_le_mono le0 length_Cons)
  qed
qed

lemma run_pairs_invoked_any:
  "\<exists>n. invoked (trace (final_state (run_pairs train q pairs s))) =
     invoked (trace s) @ take n (scheduled train pairs)"
proof (induction pairs arbitrary: s)
  case Nil
  show ?case by simp
next
  case (Cons p pairs)
  obtain key update where p: "p = (key, update)" by (cases p)
  let ?n = "if \<not> train then 1 else update"
  let ?m = "if train then nat update else 1"
  let ?rep = "run_repeats train q key ?n (py_range ?n) s"
  have sch: "scheduled train (p # pairs) = replicate ?m key @ scheduled train pairs"
    by (simp add: scheduled_def p)
  have len: "length (py_range ?n) = ?m"
    by (simp add: py_range_def)
  have run: "run_pairs train q (p # pairs) s =
      and_then (and_then ?rep (finish_pair key)) (run_pairs train q pairs)"
    by (simp add: p Let_def)
  from run_repeats_invoked_any [of "py_range ?n" train q key ?n s] len obtain n where n:
    "n \<le> ?m" "invoked (trace (final_state ?rep)) = invoked (trace s) @ replicate n key"
    by auto
  have short: "replicate n key = take n (scheduled train (p # pairs))"
    using n(1) unfolding sch by (simp add: min_def)
  show ?case
  proof (cases ?rep)
    case (Done s1)
    from run_repeats_invoked [OF Done] len
    have i1: "invoked (trace s1) = invoked (trace s) @ replicate ?m key" by simp
    have full: "replicate ?m key = take ?m (scheduled train (p # pairs))"
      unfolding sch by simp
    show ?thesis
    proof (cases "finish_pair key s1")
      case (Done s2)
      with finish_pair_fields(1) [of key s1] have "trace s2 = trace s1" by simp
      with Cons.IH [of s2] i1 obtain n' where
        "invoked (trace (final_state (run_pairs train q pairs s2))) =
           invoked (trace s) @ replicate ?m key @ take n' (scheduled train pairs)"
        by auto
      then have "invoked (trace (final_state (run_pairs train q (p # pairs) s))) =
           invoked (trace s) @ take (?m + n') (scheduled train (p # pairs))"
        unfolding run sch using \<open>?rep = Done s1\<close> Done by simp
      then show ?thesis by blast
    next
      case (Raised e s2)
      with finish_pair_fields(1) [of key s1] have "trace s2 = trace s1" by simp
      with i1 full have "invoked (trace (final_state (run_pairs train q (p # pairs) s))) =
           invoked (trace s) @ take ?m (scheduled train (p # pairs))"
        unfolding run using \<open>?rep = Done s1\<close> Raised by simp
      then show ?thesis by blast
    next
      case (Exited s2)
      with finish_pair_fields(1) [of key s1] have "trace s2 = trace s1" by simp
      with i1 full have "invoked (trace (final_state (run_pairs train q (p # pairs) s))) =
           invoked (trace s) @ take ?m (scheduled train (p # pairs))"
        unfolding run using \<open>?rep = Done s1\<close> Exited by simp
      then show ?thesis by blast
    qed
  next
    case (Raised e s1)
    with n(2) short have "invoked (trace (final_state (run_pairs train q (p # pairs) s))) =
        invoked (trace s) @ take n (scheduled train (p # pairs))"
      unfolding run by simp
    then show ?thesis by blast
  next
    case (Exited s1)
    with n(2) short have "invoked (trace (final_state (run_pairs train q (p # pairs) s))) =
        invoked (trace s) @ take n (scheduled train (p # pairs))"
      unfolding run by simp
    then show ?thesis by blast
  qed
qed

lemma run_procedure_invoked_any:
  assumes "py_index (train_procedures s) i = Some (mode, procedure, updates)"
  shows "\<exists>n. invoked (trace (final_state (run_procedure i q train s))) =
     invoked (trace s) @ take n (scheduled train (zip procedure updates))"
proof -
  let ?s2 = "(reset_routines (data_next s))\<lparr>pool := [], cur := None, kwargs := [], outputs := None\<rparr>"
  have tp: "train_procedures ?s2 = train_procedures s"
    by (simp add: reset_routines_def data_next_def emit_def)
  have tr: "invoked (trace (?s2\<lparr>pool := seed (batch ?s2)\<rparr>)) = invoked (trace s)"
    by (simp add: reset_routines_def data_next_def emit_def invoked_append)
  from assms tp have "run_procedure i q train s =
      run_pairs train q (zip procedure updates) (?s2\<lparr>pool := seed (batch ?s2)\<rparr>)"
    by (simp add: run_procedure_def Let_def)
  with run_pairs_invoked_any [of train q "zip procedure updates" "?s2\<lparr>pool := seed (batch ?s2)\<rparr>"] tr
  show ?thesis by simp
qed

text \<open>
  C1. If a step ends normally, the routines it invoked are, in order, those of the
  schedule: for each pair of the procedure its routine once in evaluation mode, whatever
  its repeat-count, and as many times as its repeat-count in training mode. However a step
  ends, the routines it invoked are an initial part of the schedule.
\<close>

theorem repeat_count_by_mode:
  assumes "py_index (train_procedures s) i = Some (mode, procedure, updates)"
  shows "(run_procedure i q train s = Done s' \<longrightarrow>
            invoked (trace s') = invoked (trace s) @ scheduled train (zip procedure updates)) \<and>
         (\<exists>n. invoked (trace (final_state (run_procedure i q train s))) =
            invoked (trace s) @ take n (scheduled train (zip procedure updates))) \<and>
         scheduled False (zip procedure updates) = map fst (zip procedure updates) \<and>
         scheduled True [(key, update)] = replicate (nat update) key"
proof (intro conjI impI)
  assume d: "run_procedure i q train s = Done s'"
  let ?s2 = "(reset_routines (data_next s))\<lparr>pool := [], cur := None, kwargs := [], outputs := None\<rparr>"
  have tp: "train_procedures ?s2 = train_procedures s"
    by (simp add: reset_routines_def data_next_def emit_def)
  have tr: "invoked (trace ?s2) = invoked (trace s)"
    by (simp add: reset_routines_def data_next_def emit_def invoked_append)
  from d assms tp have
    "run_pairs train q (zip procedure updates) (?s2\<lparr>pool := seed (batch ?s2)\<rparr>) = Done s'"
    by (simp add: run_procedure_def Let_def)
  from run_pairs_invoked [OF this] tr
  show "invoked (trace s') = invoked (trace s) @ scheduled train (zip procedure updates)"
    by simp
next
  show "\<exists>n. invoked (trace (final_state (run_procedure i q train s))) =
          invoked (trace s) @ take n (scheduled train (zip procedure updates))"
    by (rule run_procedure_invoked_any [OF assms])
next
  show "scheduled True [(key, update)] = replicate (nat update) key"
    by (simp add: scheduled_def)
qed (rule scheduled_eval)

theorem repeat_count_by_mode_witness:
  "invoked (trace (final_state (run_procedure 0 False True critic_model))) = [''critic'', ''critic''] \<and>
   invoked (trace (final_state (run_procedure 0 False False critic_model))) = [''critic'']"
proof -
  have d: "run_procedure 0 False True critic_model =
      Done (final_state (run_procedure 0 False True critic_model))"
    "run_procedure 0 False False critic_model =
      Done (final_state (run_procedure 0 False False critic_model))"
    by (rule Done_final_state, code_simp)+
  have p: "py_index (train_procedures critic_model) 0 = Some (''main'', [''critic''], [2])"
    by (simp add: critic_model_def blank_def py_index_def)
  have t: "trace critic_model = []"
    by (simp add: critic_model_def blank_def)
  from repeat_count_by_mode [OF p, THEN conjunct1, THEN mp, OF d(1)]
    repeat_count_by_mode [OF p, THEN conjunct1, THEN mp, OF d(2)] t
  show ?thesis by (simp add: scheduled_def numeral_2_eq_2)
qed

subsection \<open>Trained resources\<close>

lemma grows_from_iff:
  "grows_from old new \<longleftrightarrow>
     (\<exists>added. new = old @ added \<and> distinct added \<and> set added \<inter> set old = {})"
proof
  assume g: "grows_from old new"
  then have "new = old @ drop (length old) new"
    by (metis append_take_drop_id grows_from_def)
  with g show "\<exists>added. new = old @ added \<and> distinct added \<and> set added \<inter> set old = {}"
    unfolding grows_from_def list_all_iff by blast
next
  assume "\<exists>added. new = old @ added \<and> distinct added \<and> set added \<inter> set old = {}"
  then show "grows_from old new"
    by (auto simp: grows_from_def list_all_iff)
qed

lemma grows_from_refl: "grows_from xs xs"
  by (simp add: grows_from_def)

lemma grows_from_trans: "grows_from xs ys \<Longrightarrow> grows_from ys zs \<Longrightarrow> grows_from xs zs"
  unfolding grows_from_iff by auto

lemma grows_from_add_trained: "grows_from tn (add_trained ks tn)"
  unfolding add_trained_def
proof (induction ks arbitrary: tn)
  case Nil
  show ?case by (simp add: grows_from_refl)
next
  case (Cons k ks)
  have "grows_from tn (if k \<in> set tn then tn else tn @ [k])"
    by (simp add: grows_from_iff)
  from grows_from_trans [OF this Cons.IH] show ?case by simp
qed

lemma add_trained_set: "set (add_trained ks tn) = set tn \<union> set ks"
  unfolding add_trained_def by (induction ks arbitrary: tn) auto

lemma add_trained_absorbs: "set ks \<subseteq> set tn \<Longrightarrow> add_trained ks tn = tn"
  unfolding add_trained_def by (induction ks arbitrary: tn) auto

lemma add_trained_idem: "add_trained ks (add_trained ks tn) = add_trained ks tn"
  by (rule add_trained_absorbs) (simp add: add_trained_set)

lemma grows_and_then:
  "grows_from (trained s k) (trained (final_state x) k) \<Longrightarrow>
   (\<And>s1. grows_from (trained s1 k) (trained (final_state (f s1)) k)) \<Longrightarrow>
   grows_from (trained s k) (trained (final_state (and_then x f)) k)"
  by (cases x) (auto intro: grows_from_trans)

lemma record_trained_grows:
  "grows_from (trained s k) (trained (final_state (record_trained key s)) k)"
  by (auto simp: record_trained_def with_routine_def trained_def map_of_set_routine
      grows_from_refl grows_from_add_trained split: option.splits)

lemma run_iteration_grows:
  "grows_from (trained s k) (trained (final_state (run_iteration train q key update u s)) k)"
  unfolding run_iteration_def
  by (intro grows_and_then)
    (simp_all add: bind_routine_fields refetch_fields enable_grad_fields wire_inputs_fields
      invoke_fields backprop_trained emit_outputs_fields record_trained_grows
      anomaly_check_fields grows_from_refl)

lemma run_repeats_grows:
  "grows_from (trained s k) (trained (final_state (run_repeats train q key update us s)) k)"
proof (induction us arbitrary: s)
  case Nil
  show ?case by (simp add: grows_from_refl)
next
  case (Cons u us)
  show ?case by (simp, rule grows_and_then, rule run_iteration_grows, rule Cons.IH)
qed

lemma finish_pair_trained: "trained (final_state (finish_pair key s)) k = trained s k"
  by (simp add: trained_def finish_pair_fields)

lemma run_pairs_grows:
  "grows_from (trained s k) (trained (final_state (run_pairs train q pairs s)) k)"
proof (induction pairs arbitrary: s)
  case Nil
  show ?case by (simp add: grows_from_refl)
next
  case (Cons p pairs)
  obtain key update where p: "p = (key, update)" by (cases p)
  show ?case
    unfolding p run_pairs.simps Let_def
    by (intro grows_and_then run_repeats_grows Cons.IH)
       (simp add: finish_pair_trained grows_from_refl)
qed

lemma trained_reset_routines: "trained (reset_routines s) k = trained s k"
  by (simp add: trained_def reset_routines_def map_of_map reset_def split: option.splits)

lemma run_procedure_grows:
  "grows_from (trained s k) (trained (final_state (run_procedure i q train s)) k)"
proof -
  let ?s2 = "(reset_routines (data_next s))\<lparr>pool := [], cur := None, kwargs := [], outputs := None\<rparr>"
  have rs: "routines ?s2 = routines (reset_routines s)"
    by (simp add: reset_routines_def data_next_def emit_def)
  have t2: "trained ?s2 k = trained s k"
    using trained_reset_routines [of s k] rs by (simp add: trained_def)
  show ?thesis
  proof (cases "py_index (train_procedures ?s2) i")
    case None
    then have "run_procedure i q train s = Raised IndexOutOfRange ?s2"
      by (simp add: run_procedure_def Let_def)
    with t2 show ?thesis by (simp add: grows_from_refl)
  next
    case (Some triple)
    obtain mode procedure updates where "triple = (mode, procedure, updates)"
      by (cases triple)
    with Some have run: "run_procedure i q train s =
        run_pairs train q (zip procedure updates) (?s2\<lparr>pool := seed (batch ?s2)\<rparr>)"
      by (simp add: run_procedure_def Let_def)
    have "trained (?s2\<lparr>pool := seed (batch ?s2)\<rparr>) k = trained s k"
      using t2 by (simp add: trained_def)
    with run_pairs_grows [of "?s2\<lparr>pool := seed (batch ?s2)\<rparr>" k train q "zip procedure updates"]
    show ?thesis unfolding run by simp
  qed
qed

lemma run_steps_grows:
  "grows_from (trained s k) (trained (final_state (run_steps steps s)) k)"
proof (induction steps arbitrary: s)
  case Nil
  show ?case by (simp add: grows_from_refl)
next
  case (Cons st steps)
  obtain i q train where "st = (i, q, train)" by (cases st)
  then show ?case
    by (simp, intro grows_and_then run_procedure_grows Cons.IH)
qed

text \<open>
  C6. For every routine, the list of its trained resources after a run of any number of
  steps, after one step or after one iteration, however each ends, is the list before with
  new, pairwise different resources appended: nothing is removed and nothing is recorded
  twice. \<^verbatim>\<open>reset\<close> and \<^verbatim>\<open>reset_routines\<close> leave the list alone. Recording the same loss keys
  again changes nothing.
\<close>

theorem trained_resources_only_grow:
  "grows_from (trained s key) (trained (final_state (run_steps steps s)) key) \<and>
   grows_from (trained s key) (trained (final_state (run_procedure i q train s)) key) \<and>
   grows_from (trained s key) (trained (final_state (run_iteration train q k update u s)) key) \<and>
   training_nets (reset r) = training_nets r \<and>
   trained (reset_routines s) key = trained s key \<and>
   add_trained ks (add_trained ks tn) = add_trained ks tn \<and>
   set (add_trained ks tn) = set tn \<union> set ks"
  by (simp add: run_steps_grows run_procedure_grows run_iteration_grows reset_def
      trained_reset_routines add_trained_idem add_trained_set)

subsection \<open>Numeric anomalies\<close>

lemma enable_loop_cur:
  "cur (final_state (enable_loop r ks s)) = cur s \<and> (\<forall>s'. enable_loop r ks s \<noteq> Exited s')"
  by (induction ks arbitrary: s)
    (auto simp: Let_def emit_fields optimizer_lookup_def split: sum.splits send.splits)

lemma backprop_loop_cur:
  "cur (final_state (backprop_loop r ls s)) = cur s \<and> (\<forall>s'. backprop_loop r ls s \<noteq> Exited s')"
  by (induction r ls s rule: backprop_loop.induct)
    (auto simp: Let_def emit_fields optimizer_lookup_def
      split: sum.splits send.splits option.splits)

lemma emit_loop_cur:
  "cur (final_state (emit_loop key outs s)) = cur s \<and> (\<forall>s'. emit_loop key outs s \<noteq> Exited s')"
  by (induction outs arbitrary: s) (auto simp: Let_def split: if_splits)

lemma update_results_no_exit: "update_results rs s \<noteq> Exited s'"
  by (induction rs s rule: update_results.induct) auto

lemma bind_routine_cur:
  "bind_routine key s = Done s' \<Longrightarrow> cur s' = Some key"
  by (auto simp: bind_routine_def Let_def set_routine_def split: option.splits)

lemma no_exit:
  "bind_routine key s \<noteq> Exited s'"
  "enable_grad train key s \<noteq> Exited s'"
  "wire_inputs key s \<noteq> Exited s'"
  "invoke key s \<noteq> Exited s'"
  "backprop train key s \<noteq> Exited s'"
  "emit_outputs key update u s \<noteq> Exited s'"
  "record_trained key s \<noteq> Exited s'"
  "finish_pair key s \<noteq> Exited s'"
  by (auto simp: bind_routine_def enable_grad_def wire_inputs_def invoke_def backprop_def
      emit_outputs_def record_trained_def finish_pair_def with_routine_def Let_def
      enable_loop_cur backprop_loop_cur emit_loop_cur update_results_no_exit
      and_then_Exited_iff
      split: option.splits sum.splits prod.splits)

lemma cur_kept:
  "cur (final_state (enable_grad train key s)) = cur s"
  "cur (final_state (wire_inputs key s)) = cur s"
  "cur (final_state (invoke key s)) = cur s"
  "cur (final_state (emit_outputs key update u s)) = cur s"
  "cur (final_state (record_trained key s)) = cur s"
  by (auto simp: enable_grad_def wire_inputs_def invoke_def
      emit_outputs_def record_trained_def with_routine_def Let_def set_routine_fields emit_fields
      enable_loop_cur emit_loop_cur
      split: option.splits sum.splits prod.splits)

lemma backprop_cur: "cur (final_state (backprop train key s)) = cur s"
  unfolding backprop_def
  by (rule keeps_and_then; auto simp: with_routine_def backprop_loop_cur split: option.splits)

lemma anomaly_check_Exited:
  "anomaly_check q key s = Exited s' \<Longrightarrow>
     q \<and> (\<exists>r. map_of (routines s) key = Some r \<and> bad_values (results r) \<noteq> [] \<and>
            s' = emit (Print (bad_values (results r)) (results r)) s)"
  by (auto simp: anomaly_check_def with_routine_def Let_def split: option.splits if_splits)

lemma run_iteration_Exited:
  assumes "run_iteration train q key update u s = Exited s'"
  shows "q \<and> (\<exists>r tr. cur s' = Some key \<and> map_of (routines s') key = Some r \<and>
           bad_values (results r) \<noteq> [] \<and>
           trace s' = tr @ [Print (bad_values (results r)) (results r)] \<and>
           invoked tr \<noteq> [] \<and> last (invoked tr) = key)"
proof -
  from assms obtain s1 s2 s3 s4 s5 s6 s7 where steps:
    "bind_routine key (refetch u s) = Done s1" "enable_grad train key s1 = Done s2"
    "wire_inputs key s2 = Done s3" "invoke key s3 = Done s4" "backprop train key s4 = Done s5"
    "emit_outputs key update u s5 = Done s6" "record_trained key s6 = Done s7"
    "anomaly_check q key s7 = Exited s'"
    unfolding run_iteration_def and_then_Exited_iff and_then_Done_iff
    by (auto simp: no_exit)
  have c: "cur s7 = Some key"
    using bind_routine_cur [OF steps(1)] cur_kept(1) [of train key s1] cur_kept(2) [of key s2]
      cur_kept(3) [of key s3] backprop_cur [of train key s4] cur_kept(4) [of key update u s5]
      cur_kept(5) [of key s6] steps
    by simp
  have "invoked (trace s3) = invoked (trace s)"
    using bind_routine_fields(2) [of key "refetch u s"] enable_grad_fields(2) [of train key s1]
      wire_inputs_fields(2) [of key s2] steps
    by (simp add: refetch_fields)
  moreover have "invoked (trace s4) = invoked (trace s3) @ [key]"
    using invoke_Done [OF steps(4)] by simp
  moreover have "invoked (trace s7) = invoked (trace s4)"
    using backprop_fields(3) [of train key s4] emit_outputs_fields(1) [of key update u s5]
      record_trained_fields(2) [of key s6] steps
    by simp
  ultimately have i: "invoked (trace s7) = invoked (trace s) @ [key]" by simp
  from anomaly_check_Exited [OF steps(8)] obtain r where r: q "map_of (routines s7) key = Some r"
    "bad_values (results r) \<noteq> []" "s' = emit (Print (bad_values (results r)) (results r)) s7"
    by blast
  with c i show ?thesis by (auto simp: emit_fields)
qed

lemma run_repeats_Exited:
  "run_repeats train q key update us s = Exited s' \<Longrightarrow>
     \<exists>u s0. run_iteration train q key update u s0 = Exited s'"
  by (induction us arbitrary: s) (auto simp: and_then_Exited_iff)

lemma run_pairs_Exited:
  "run_pairs train q pairs s = Exited s' \<Longrightarrow>
     \<exists>key update u s0. run_iteration train q key update u s0 = Exited s'"
proof (induction pairs arbitrary: s)
  case Nil
  then show ?case by simp
next
  case (Cons p pairs)
  obtain key update where p: "p = (key, update)" by (cases p)
  let ?n = "if \<not> train then 1 else update"
  from Cons.prems p consider
    (here) "run_repeats train q key ?n (py_range ?n) s = Exited s'"
    | (later) s1 where "run_pairs train q pairs s1 = Exited s'"
    by (auto simp: and_then_Exited_iff Let_def no_exit split: if_splits)
  then show ?case
  proof cases
    case here
    from run_repeats_Exited [OF this] show ?thesis by blast
  next
    case later
    from Cons.IH [OF this] show ?thesis .
  qed
qed

lemma run_procedure_Exited:
  "run_procedure i q train s = Exited s' \<Longrightarrow>
     \<exists>key update u s0. run_iteration train q key update u s0 = Exited s'"
  by (auto simp: run_procedure_def Let_def split: option.splits dest: run_pairs_Exited)

lemma anomaly_check_lenient: "anomaly_check False key s = (case map_of (routines s) key of
    None \<Rightarrow> Raised (NoSuchKey (Key key)) s | Some r \<Rightarrow> Done s)"
  by (simp add: anomaly_check_def with_routine_def Let_def split: option.splits)

lemma run_iteration_printed:
  "printed (trace (final_state (run_iteration train False key update u s))) = printed (trace s)"
  unfolding run_iteration_def
  by (intro keeps_and_then [where g = "\<lambda>s. printed (trace s)"])
    (simp_all add: bind_routine_fields refetch_fields enable_grad_fields wire_inputs_fields
      invoke_fields backprop_fields emit_outputs_fields record_trained_fields
      anomaly_check_lenient split: option.splits)

lemma run_repeats_printed:
  "printed (trace (final_state (run_repeats train False key update us s))) = printed (trace s)"
proof (induction us arbitrary: s)
  case Nil
  show ?case by simp
next
  case (Cons u us)
  show ?case
    by (simp, rule keeps_and_then [where g = "\<lambda>s. printed (trace s)"],
        rule run_iteration_printed, rule Cons.IH)
qed

lemma run_pairs_printed:
  "printed (trace (final_state (run_pairs train False pairs s))) = printed (trace s)"
proof (induction pairs arbitrary: s)
  case Nil
  show ?case by simp
next
  case (Cons p pairs)
  obtain key update where p: "p = (key, update)" by (cases p)
  show ?case
    unfolding p run_pairs.simps Let_def
    by (intro keeps_and_then [where g = "\<lambda>s. printed (trace s)"] run_repeats_printed Cons.IH)
       (simp add: finish_pair_fields)
qed

lemma run_procedure_printed:
  "printed (trace (final_state (run_procedure i False train s))) = printed (trace s)"
proof -
  let ?s2 = "(reset_routines (data_next s))\<lparr>pool := [], cur := None, kwargs := [], outputs := None\<rparr>"
  have t2: "printed (trace ?s2) = printed (trace s)"
    by (simp add: reset_routines_def data_next_def emit_def printed_append)
  show ?thesis
  proof (cases "py_index (train_procedures ?s2) i")
    case None
    then have "run_procedure i False train s = Raised IndexOutOfRange ?s2"
      by (simp add: run_procedure_def Let_def)
    with t2 show ?thesis by simp
  next
    case (Some triple)
    obtain mode procedure updates where "triple = (mode, procedure, updates)"
      by (cases triple)
    with Some have run: "run_procedure i False train s =
        run_pairs train False (zip procedure updates) (?s2\<lparr>pool := seed (batch ?s2)\<rparr>)"
      by (simp add: run_procedure_def Let_def)
    have "printed (trace (?s2\<lparr>pool := seed (batch ?s2)\<rparr>)) = printed (trace s)"
      using t2 by simp
    with run_pairs_printed [of train "zip procedure updates" "?s2\<lparr>pool := seed (batch ?s2)\<rparr>"]
    show ?thesis unfolding run by simp
  qed
qed

lemma and_then_assoc: "and_then (and_then x f) g = and_then x (\<lambda>s. and_then (f s) g)"
  by (cases x) auto

lemma run_repeats_append:
  "run_repeats train q key n (us @ vs) s =
     and_then (run_repeats train q key n us s) (run_repeats train q key n vs)"
proof (induction us arbitrary: s)
  case Nil
  show ?case by simp
next
  case (Cons u us)
  have "run_repeats train q key n (us @ vs) =
      (\<lambda>s. and_then (run_repeats train q key n us s) (run_repeats train q key n vs))"
    by (rule ext) (rule Cons.IH)
  then show ?case by (simp add: and_then_assoc)
qed

lemma run_pairs_append:
  "run_pairs train q (xs @ ys) s = and_then (run_pairs train q xs s) (run_pairs train q ys)"
proof (induction xs arbitrary: s)
  case Nil
  show ?case by simp
next
  case (Cons p xs)
  obtain key update where p: "p = (key, update)" by (cases p)
  have "run_pairs train q (xs @ ys) =
      (\<lambda>s. and_then (run_pairs train q xs s) (run_pairs train q ys))"
    by (rule ext) (rule Cons.IH)
  then show ?case unfolding p by (simp add: Let_def and_then_assoc)
qed

lemma run_procedure_entry:
  "py_index (train_procedures s) i = Some (mode, procedure, updates) \<Longrightarrow>
     run_procedure i q train s = run_pairs train q (zip procedure updates) (entry s)"
  by (simp add: run_procedure_def entry_def Let_def reset_routines_def data_next_def emit_def)

lemma entry_invoked: "invoked (trace (entry s)) = invoked (trace s)"
  by (simp add: entry_def Let_def reset_routines_def data_next_def emit_def invoked_append)

lemma run_iteration_strict:
  assumes "run_iteration train False key n u s = Done s7"
    and "map_of (routines s7) key = Some r" and "bad_values (results r) \<noteq> []"
  shows "run_iteration train True key n u s =
           Exited (emit (Print (bad_values (results r)) (results r)) s7)"
proof -
  from assms(1) obtain s6 where s6:
    "and_then (and_then (and_then (and_then (and_then (and_then
       (bind_routine key (refetch u s))
       (enable_grad train key))
       (wire_inputs key))
       (invoke key))
       (backprop train key))
       (emit_outputs key n u))
       (record_trained key) = Done s6"
    "anomaly_check False key s6 = Done s7"
    unfolding run_iteration_def and_then_Done_iff by blast
  from s6(2) have "s7 = s6"
    by (auto simp: anomaly_check_lenient split: option.splits)
  with s6(1) assms(2,3) show ?thesis
    by (simp add: run_iteration_def anomaly_check_def with_routine_def Let_def)
qed

lemma strict_step_exits:
  assumes idx: "py_index (train_procedures s) i = Some (mode, procedure, updates)"
    and split: "zip procedure updates = pre @ (key, update) # post"
    and n: "n = (if \<not> train then 1 else update)" and us: "py_range n = us @ u # rest"
    and pre: "run_pairs train True pre (entry s) = Done s0"
    and rep: "run_repeats train True key n us s0 = Done s1"
    and it: "run_iteration train False key n u s1 = Done s7"
    and r: "map_of (routines s7) key = Some r" and bad: "bad_values (results r) \<noteq> []"
  shows "run_procedure i True train s =
           Exited (emit (Print (bad_values (results r)) (results r)) s7)"
    and "invoked (trace (final_state (run_procedure i True train s))) =
           invoked (trace s) @ scheduled train pre @ replicate (length us) key @ [key]"
proof -
  let ?stop = "Exited (emit (Print (bad_values (results r)) (results r)) s7)"
  have "run_repeats train True key n (us @ u # rest) s0 = ?stop"
    by (simp add: run_repeats_append rep run_iteration_strict [OF it r bad])
  then have "run_pairs train True ((key, update) # post) s0 = ?stop"
    using n us by (simp add: Let_def)
  then have "run_pairs train True (pre @ (key, update) # post) (entry s) = ?stop"
    by (simp add: run_pairs_append pre)
  then show stop: "run_procedure i True train s = ?stop"
    by (simp add: run_procedure_entry [OF idx] split)
  have "invoked (trace s7) = invoked (trace s1) @ [key]"
    by (rule run_iteration_invoked [OF it])
  moreover have "invoked (trace s1) = invoked (trace s0) @ replicate (length us) key"
    by (rule run_repeats_invoked [OF rep])
  moreover have "invoked (trace s0) = invoked (trace (entry s)) @ scheduled train pre"
    by (rule run_pairs_invoked [OF pre])
  ultimately show "invoked (trace (final_state (run_procedure i True train s))) =
      invoked (trace s) @ scheduled train pre @ replicate (length us) key @ [key]"
    by (simp add: stop emit_def invoked_append entry_invoked)
qed

text \<open>
  C5, as amended. An iteration that reaches the anomaly check with a not-a-number or
  infinite value among the scalar results of its routine (that is, an iteration that
  without strict mode ends normally with such a result) ends the process in strict mode, in
  either mode of the step, at that very state, after printing the bad entries. A strict
  step whose earlier pairs and earlier repeats have ended normally ends the process at such
  an iteration, and the routines it has invoked are those of the earlier pairs, the
  earlier repeats and this iteration: no later repeat and no later routine of the procedure
  runs. Conversely, a step that ends the process was in strict mode, the routine bound
  last has a bad result, the print is the last event and that routine is the last one
  invoked. Without strict mode the check changes nothing, a step never ends the process
  and nothing is printed.
\<close>

theorem anomaly_ends_process_only_in_strict_mode:
  "(map_of (routines s) key = Some r \<and> bad_values (results r) \<noteq> [] \<longrightarrow>
      anomaly_check True key s = Exited (emit (Print (bad_values (results r)) (results r)) s) \<and>
      anomaly_check False key s = Done s) \<and>
   (run_iteration train False key n u s1 = Done s7 \<and> map_of (routines s7) key = Some r \<and>
    bad_values (results r) \<noteq> [] \<longrightarrow>
      run_iteration train True key n u s1 =
        Exited (emit (Print (bad_values (results r)) (results r)) s7)) \<and>
   (py_index (train_procedures s) i = Some (mode, procedure, updates) \<and>
    zip procedure updates = pre @ (key, update) # post \<and>
    n = (if \<not> train then 1 else update) \<and> py_range n = us @ u # rest \<and>
    run_pairs train True pre (entry s) = Done s0 \<and>
    run_repeats train True key n us s0 = Done s1 \<and>
    run_iteration train False key n u s1 = Done s7 \<and>
    map_of (routines s7) key = Some r \<and> bad_values (results r) \<noteq> [] \<longrightarrow>
      run_procedure i True train s =
        Exited (emit (Print (bad_values (results r)) (results r)) s7) \<and>
      invoked (trace (final_state (run_procedure i True train s))) =
        invoked (trace s) @ scheduled train pre @ replicate (length us) key @ [key]) \<and>
   (run_procedure i q train s = Exited s' \<longrightarrow>
      q \<and> (\<exists>key r tr. cur s' = Some key \<and> map_of (routines s') key = Some r \<and>
             bad_values (results r) \<noteq> [] \<and>
             trace s' = tr @ [Print (bad_values (results r)) (results r)] \<and>
             invoked tr \<noteq> [] \<and> last (invoked tr) = key)) \<and>
   run_procedure i False train s \<noteq> Exited s' \<and>
   printed (trace (final_state (run_procedure i False train s))) = printed (trace s)"
proof (intro conjI impI)
  assume "run_procedure i q train s = Exited s'"
  from run_procedure_Exited [OF this] obtain key update u s0 where
    "run_iteration train q key update u s0 = Exited s'" by blast
  from run_iteration_Exited [OF this]
  show "q" and "\<exists>key r tr. cur s' = Some key \<and> map_of (routines s') key = Some r \<and>
             bad_values (results r) \<noteq> [] \<and>
             trace s' = tr @ [Print (bad_values (results r)) (results r)] \<and>
             invoked tr \<noteq> [] \<and> last (invoked tr) = key"
    by blast+
next
  show "run_procedure i False train s \<noteq> Exited s'"
    using run_procedure_Exited run_iteration_Exited by blast
next
  assume a: "run_iteration train False key n u s1 = Done s7 \<and> map_of (routines s7) key = Some r \<and>
    bad_values (results r) \<noteq> []"
  show "run_iteration train True key n u s1 =
      Exited (emit (Print (bad_values (results r)) (results r)) s7)"
    by (rule run_iteration_strict) (simp_all add: a)
next
  assume a: "py_index (train_procedures s) i = Some (mode, procedure, updates) \<and>
    zip procedure updates = pre @ (key, update) # post \<and>
    n = (if \<not> train then 1 else update) \<and> py_range n = us @ u # rest \<and>
    run_pairs train True pre (entry s) = Done s0 \<and>
    run_repeats train True key n us s0 = Done s1 \<and>
    run_iteration train False key n u s1 = Done s7 \<and>
    map_of (routines s7) key = Some r \<and> bad_values (results r) \<noteq> []"
  then have h: "py_index (train_procedures s) i = Some (mode, procedure, updates)"
    "zip procedure updates = pre @ (key, update) # post"
    "n = (if \<not> train then 1 else update)" "py_range n = us @ u # rest"
    "run_pairs train True pre (entry s) = Done s0"
    "run_repeats train True key n us s0 = Done s1"
    "run_iteration train False key n u s1 = Done s7"
    "map_of (routines s7) key = Some r" "bad_values (results r) \<noteq> []"
    by blast+
  show "run_procedure i True train s =
      Exited (emit (Print (bad_values (results r)) (results r)) s7)"
    by (rule strict_step_exits(1) [OF h])
  show "invoked (trace (final_state (run_procedure i True train s))) =
      invoked (trace s) @ scheduled train pre @ replicate (length us) key @ [key]"
    by (rule strict_step_exits(2) [OF h])
qed (auto simp: anomaly_check_def with_routine_def Let_def run_procedure_printed)

theorem anomaly_ends_process_only_in_strict_mode_witness:
  "is_exited (run_procedure 0 True True mixed_model) \<and>
   invoked (trace (final_state (run_procedure 0 True True mixed_model))) = [''critic'', ''sampler''] \<and>
   printed (trace (final_state (run_procedure 0 True True mixed_model))) = [[(''loss'', NaN)]]"
proof -
  define s0 where "s0 = final_state (run_pairs True True [(''critic'', 1)] (entry mixed_model))"
  define s7 where "s7 = final_state (run_iteration True False ''sampler'' 2 0 s0)"
  define r where "r = the (map_of (routines s7) ''sampler'')"
  have h1: "py_index (train_procedures mixed_model) 0 =
      Some (''main'', [''critic'', ''sampler'', ''critic''], [1, 2, 1])"
    by (simp add: mixed_model_def blank_def py_index_def)
  have h2: "zip [''critic'', ''sampler'', ''critic''] [1, 2, 1 :: int] =
      [(''critic'', 1)] @ (''sampler'', 2) # [(''critic'', 1)]"
    by simp
  have h3: "(2 :: int) = (if \<not> True then 1 else 2)" "py_range 2 = [] @ 0 # [1]"
    by (simp_all add: py_range_def upt_rec)
  have h4: "run_pairs True True [(''critic'', 1)] (entry mixed_model) = Done s0"
    unfolding s0_def by (rule Done_final_state, code_simp)
  have h5: "run_repeats True True ''sampler'' 2 [] s0 = Done s0"
    by simp
  have h6: "run_iteration True False ''sampler'' 2 0 s0 = Done s7"
    unfolding s7_def s0_def by (rule Done_final_state, code_simp)
  have "case map_of (routines s7) ''sampler'' of
          None \<Rightarrow> False | Some r \<Rightarrow> bad_values (results r) = [(''loss'', NaN)]"
    unfolding s7_def s0_def by code_simp
  then have h7: "map_of (routines s7) ''sampler'' = Some r"
      "bad_values (results r) = [(''loss'', NaN)]"
    unfolding r_def by (cases "map_of (routines s7) ''sampler''"; simp)+
  then have h8: "bad_values (results r) \<noteq> []" by simp
  have t: "invoked (trace mixed_model) = []"
    by (simp add: mixed_model_def blank_def)
  have p7: "printed (trace s7) = []"
    unfolding s7_def s0_def by code_simp
  note step = anomaly_ends_process_only_in_strict_mode
    [THEN conjunct2, THEN conjunct2, THEN conjunct1, THEN mp,
      OF conjI [OF h1 conjI [OF h2 conjI [OF h3(1) conjI [OF h3(2) conjI [OF h4 conjI [OF h5
        conjI [OF h6 conjI [OF h7(1) h8]]]]]]]]]
  from step [THEN conjunct1]
  have e: "is_exited (run_procedure 0 True True mixed_model)"
    "printed (trace (final_state (run_procedure 0 True True mixed_model))) =
       printed (trace s7) @ [bad_values (results r)]"
    by (simp_all add: emit_def printed_append)
  from step [THEN conjunct2] t
  have "invoked (trace (final_state (run_procedure 0 True True mixed_model))) =
      [''critic'', ''sampler'']"
    by (simp add: scheduled_def)
  with e h7(2) p7 show ?thesis by simp
qed

text \<open>
  C5, as the claim states it, at two inputs where it fails. Without strict mode a step
  whose routine \<open>sampler\<close> leaves a not-a-number result ends normally, and its only effects
  outside are the fetch of the batch and the invocation: nothing is printed or logged. In
  strict mode a step whose routine, stored under the key \<open>data\<close>, leaves a not-a-number
  result and returns an output \<open>x\<close> does not end the process: the key \<open>data.x\<close> is already in
  the pool, the step fails with the \<^verbatim>\<open>KeyError\<close> of line 406 before the anomaly check of line
  417 is reached, and nothing is printed.
\<close>

theorem anomaly_neither_always_exits_nor_is_logged:
  "is_done (run_procedure 0 False False sampler_model) \<and>
   map_option results (map_of (routines (final_state (run_procedure 0 False False sampler_model)))
     ''sampler'') = Some [(''loss'', NaN)] \<and>
   bad_values [(''loss'', NaN)] = [(''loss'', NaN)] \<and>
   trace (final_state (run_procedure 0 False False sampler_model)) = [Fetch, Invoke ''sampler''] \<and>
   raised (run_procedure 0 True False loader_model) = Some (AlreadyInInputs ''data.x'') \<and>
   map_option results (map_of (routines (final_state (run_procedure 0 True False loader_model)))
     ''data'') = Some [(''loss'', NaN)] \<and>
   trace (final_state (run_procedure 0 True False loader_model)) = [Fetch, Invoke ''data'']"
  by code_simp

end
